theory Spec2Isabelle
  imports Main "HOL-Library.AList" "HOL-Library.Multiset"
begin

section \<open>Data model (analyzer.ts)\<close>

text \<open>
  The analyzer's JSON types. A JavaScript string is modelled as a \<open>string\<close> (a list of
  characters), a JSON number holding a source position as an \<open>int\<close>. The \<open>kind\<close> and
  \<open>severity\<close> fields stay strings, as in the source, so the fall-through branches of the
  code that compare them with literals are part of the model.
\<close>

record BismutDiagnostic =
  d_severity :: string
  d_file :: string
  d_line :: int
  d_col :: int
  d_span :: int
  d_message :: string

record BismutSymbol =
  sym_name :: string
  sym_kind :: string
  sym_file :: string
  sym_line :: int
  sym_col :: int
  sym_doc :: string
  sym_detail :: string
  sym_parent :: string

record AnalysisResult =
  success :: bool
  r_file :: string
  error_count :: int
  warning_count :: int
  diagnostics :: "BismutDiagnostic list"
  symbols :: "BismutSymbol list"

section \<open>JavaScript \<open>Map\<close> and string helpers\<close>

text \<open>
  A JavaScript \<open>Map\<close> iterates in insertion order, and \<open>set\<close> on a key that is present
  keeps the key's position. It is an association list with distinct keys:
  \<open>m.get(k)\<close> is \<^term>\<open>map_of m k\<close>, \<open>m.set(k, v)\<close> is \<^term>\<open>AList.update k v m\<close>
  (replace in place, else append) and \<open>m.delete(k)\<close> is \<^term>\<open>AList.delete k m\<close>.
  \<open>m.get(k) ?? []\<close> is \<open>getOrEmpty\<close>.
\<close>

type_synonym ('k, 'v) jsmap = "('k \<times> 'v) list"

definition getOrEmpty :: "('k, 'v list) jsmap \<Rightarrow> 'k \<Rightarrow> 'v list" where
  "getOrEmpty m k = (case map_of m k of Some l \<Rightarrow> l | None \<Rightarrow> [])"

text \<open>\<open>s.split(c)\<close> for a one-character separator: the pieces between the separators.\<close>

primrec split :: "char \<Rightarrow> string \<Rightarrow> string list" where
  "split c [] = [[]]"
| "split c (x # xs) =
     (if x = c then [] # split c xs
      else (case split c xs of w # ws \<Rightarrow> (x # w) # ws | [] \<Rightarrow> [[x]]))"

text \<open>\<open>name.includes('.')\<close> and \<open>name.split('.').pop()\<close>.\<close>

definition includesDot :: "string \<Rightarrow> bool" where
  "includesDot n = (CHR ''.'' \<in> set n)"

definition splitPop :: "string \<Rightarrow> string" where
  "splitPop n = last (split CHR ''.'' n)"

text \<open>\<open>sym.name.includes('.') ? sym.name.split('.').pop()! : sym.name\<close>\<close>

definition simpleName :: "string \<Rightarrow> string" where
  "simpleName n = (if includesDot n then splitPop n else n)"

section \<open>Editor-side values (vscode API objects)\<close>

record Range =
  startLine :: int
  startCharacter :: int
  endLine :: int
  endCharacter :: int

datatype DiagnosticSeverity = SevError | SevWarning | SevInformation | SevHint

record VsDiagnostic =
  vs_range :: Range
  vs_message :: string
  vs_severity :: DiagnosticSeverity
  vs_source :: string

section \<open>SymbolCache (symbolCache.ts)\<close>

type_synonym nameindex = "(string, BismutSymbol list) jsmap"

text \<open>
  The fields of the class. The diagnostic collection of the editor maps a URI to the
  diagnostics shown for it. The URIs are the editor's: their type \<open>'u\<close> and the function
  \<open>vscode.Uri.file\<close> from paths to URIs, \<open>uriFile\<close>, are parameters of the model, so
  nothing is assumed of which paths share a URI. \<open>analyzing\<close> is the JavaScript \<open>Set\<close> of
  paths whose analysis is running.
\<close>

record 'u SymbolCache =
  cache :: "(string, AnalysisResult) jsmap"
  nameIndex :: "(string, nameindex) jsmap"
  globalSymbols :: nameindex
  diagnosticCollection :: "'u \<rightharpoonup> VsDiagnostic list"
  analyzing :: "string set"

definition newSymbolCache :: "'u SymbolCache" where
  "newSymbolCache =
     \<lparr>cache = [], nameIndex = [], globalSymbols = [],
      diagnosticCollection = Map.empty, analyzing = {}\<rparr>"

subsection \<open>toVsDiagnostic, publishDiagnostics\<close>

definition toVsDiagnostic :: "BismutDiagnostic \<Rightarrow> VsDiagnostic" where
  "toVsDiagnostic d =
     (let line = max 0 (d_line d - 1);
          col = max 0 (d_col d - 1);
          span = max 1 (d_span d);
          range = \<lparr>startLine = line, startCharacter = col,
                   endLine = line, endCharacter = col + span\<rparr>;
          severity =
            (if d_severity d = ''error'' then SevError
             else if d_severity d = ''warning'' then SevWarning
             else SevInformation)
      in \<lparr>vs_range = range, vs_message = d_message d,
          vs_severity = severity, vs_source = ''bismut''\<rparr>)"

text \<open>The first loop of publishDiagnostics: group the diagnostics by file.\<close>

definition groupStep ::
  "AnalysisResult \<Rightarrow> BismutDiagnostic \<Rightarrow> (string, BismutDiagnostic list) jsmap
     \<Rightarrow> (string, BismutDiagnostic list) jsmap" where
  "groupStep result d byFile =
     (let file = (if d_file d \<noteq> [] then d_file d else r_file result);
          list = getOrEmpty byFile file
      in AList.update file (list @ [d]) byFile)"

definition groupByFile :: "AnalysisResult \<Rightarrow> (string, BismutDiagnostic list) jsmap" where
  "groupByFile result = fold (groupStep result) (diagnostics result) []"

definition publishDiagnostics ::
  "(string \<Rightarrow> 'u) \<Rightarrow> AnalysisResult \<Rightarrow> 'u SymbolCache \<Rightarrow> 'u SymbolCache" where
  "publishDiagnostics uriFile result s =
     (let byFile = groupByFile result;
          cleared = (diagnosticCollection s)(uriFile (r_file result) := None)
      in s\<lparr>diagnosticCollection :=
            fold (\<lambda>(file, diags) dc. dc(uriFile file \<mapsto> map toVsDiagnostic diags))
              byFile cleared\<rparr>)"

subsection \<open>buildIndex, rebuildGlobalIndex\<close>

text \<open>The body of the loop of buildIndex, on the local \<open>index\<close>.\<close>

definition indexStep :: "BismutSymbol \<Rightarrow> nameindex \<Rightarrow> nameindex" where
  "indexStep symb index =
     (let existing = getOrEmpty index (sym_name symb);
          index1 = AList.update (sym_name symb) (existing @ [symb]) index
      in if includesDot (sym_name symb)
         then (let simple = splitPop (sym_name symb);
                   simpleList = getOrEmpty index1 simple
               in AList.update simple (simpleList @ [symb]) index1)
         else index1)"

definition fileIndex :: "BismutSymbol list \<Rightarrow> nameindex" where
  "fileIndex syms = fold indexStep syms []"

text \<open>The inner and the outer loop of rebuildGlobalIndex.\<close>

definition mergeEntry :: "string \<times> BismutSymbol list \<Rightarrow> nameindex \<Rightarrow> nameindex" where
  "mergeEntry e g = (case e of (name, syms) \<Rightarrow>
     (let existing = getOrEmpty g name in AList.update name (existing @ syms) g))"

definition mergeIndex :: "string \<times> nameindex \<Rightarrow> nameindex \<Rightarrow> nameindex" where
  "mergeIndex e g = fold mergeEntry (snd e) g"

definition rebuildGlobalIndex :: "'u SymbolCache \<Rightarrow> 'u SymbolCache" where
  "rebuildGlobalIndex s = s\<lparr>globalSymbols := fold mergeIndex (nameIndex s) []\<rparr>"

definition buildIndex :: "string \<Rightarrow> AnalysisResult \<Rightarrow> 'u SymbolCache \<Rightarrow> 'u SymbolCache" where
  "buildIndex filePath result s =
     (let index = fileIndex (symbols result)
      in rebuildGlobalIndex (s\<lparr>nameIndex := AList.update filePath index (nameIndex s)\<rparr>))"

subsection \<open>analyzeFile\<close>

text \<open>
  The three statements run when the analyzer returned a result:
  \<open>cache.set\<close>, \<open>buildIndex\<close>, \<open>publishDiagnostics\<close>.
\<close>

definition ingest ::
  "(string \<Rightarrow> 'u) \<Rightarrow> string \<Rightarrow> AnalysisResult \<Rightarrow> 'u SymbolCache \<Rightarrow> 'u SymbolCache" where
  "ingest uriFile filePath result s =
     publishDiagnostics uriFile result
       (buildIndex filePath result (s\<lparr>cache := AList.update filePath result (cache s)\<rparr>))"

text \<open>
  analyzeFile is asynchronous: it runs up to \<open>await this.analyzer.analyze(filePath)\<close>,
  and resumes with the analyzer's answer (\<open>None\<close> is \<open>null\<close>) in a later turn of the event
  loop. Each half runs without interruption. The first half either answers at once from
  the cache or starts the external analyzer.
\<close>

datatype begun = Answered "AnalysisResult option" | Invoked

definition analyzeFile_begin :: "string \<Rightarrow> 'u SymbolCache \<Rightarrow> begun \<times> 'u SymbolCache" where
  "analyzeFile_begin filePath s =
     (if filePath \<in> analyzing s then (Answered (map_of (cache s) filePath), s)
      else (Invoked, s\<lparr>analyzing := insert filePath (analyzing s)\<rparr>))"

definition analyzeFile_resume ::
  "(string \<Rightarrow> 'u) \<Rightarrow> string \<Rightarrow> AnalysisResult option \<Rightarrow> 'u SymbolCache
     \<Rightarrow> AnalysisResult option \<times> 'u SymbolCache" where
  "analyzeFile_resume uriFile filePath result s =
     (let s1 = (case result of Some r \<Rightarrow> ingest uriFile filePath r s | None \<Rightarrow> s)
      in (result, s1\<lparr>analyzing := analyzing s1 - {filePath}\<rparr>))"

subsection \<open>clearFile, clearAll\<close>

definition clearFile :: "string \<Rightarrow> 'u SymbolCache \<Rightarrow> 'u SymbolCache" where
  "clearFile filePath s =
     rebuildGlobalIndex
       (s\<lparr>cache := AList.delete filePath (cache s),
          nameIndex := AList.delete filePath (nameIndex s)\<rparr>)"

definition clearAll :: "'u SymbolCache \<Rightarrow> 'u SymbolCache" where
  "clearAll s =
     s\<lparr>cache := [], nameIndex := [], globalSymbols := [], diagnosticCollection := Map.empty\<rparr>"

subsection \<open>Queries\<close>

definition getResult :: "'u SymbolCache \<Rightarrow> string \<Rightarrow> AnalysisResult option" where
  "getResult s filePath = map_of (cache s) filePath"

definition findSymbolsByName :: "'u SymbolCache \<Rightarrow> string \<Rightarrow> BismutSymbol list" where
  "findSymbolsByName s name = getOrEmpty (globalSymbols s) name"

definition defKinds :: "string set" where
  "defKinds = {''function'', ''class'', ''struct'', ''interface'', ''enum'', ''method'',
               ''field'', ''variable'', ''constant''}"

text \<open>The loop of findDefinition: the first candidate of a definition kind.\<close>

fun firstDefKind :: "BismutSymbol list \<Rightarrow> BismutSymbol option" where
  "firstDefKind [] = None"
| "firstDefKind (symb # rest) =
     (if sym_kind symb \<in> defKinds then Some symb else firstDefKind rest)"

definition findDefinition :: "'u SymbolCache \<Rightarrow> string \<Rightarrow> BismutSymbol option" where
  "findDefinition s name =
     (let candidates = findSymbolsByName s name
      in if length candidates = 0 then None
         else (case firstDefKind candidates of
                 Some symb \<Rightarrow> Some symb
               | None \<Rightarrow> Some (candidates ! 0)))"

text \<open>The two nested loops of findMembers, pushing onto \<open>results\<close>.\<close>

definition membersOfResult ::
  "string \<Rightarrow> string \<times> AnalysisResult \<Rightarrow> BismutSymbol list \<Rightarrow> BismutSymbol list" where
  "membersOfResult typeName e results =
     fold (\<lambda>symb acc. if sym_parent symb = typeName then acc @ [symb] else acc)
       (symbols (snd e)) results"

definition findMembers :: "'u SymbolCache \<Rightarrow> string \<Rightarrow> BismutSymbol list" where
  "findMembers s typeName = fold (membersOfResult typeName) (cache s) []"

text \<open>The loop of findVariableType over the symbols of the file.\<close>

fun scanVariableType :: "string \<Rightarrow> BismutSymbol list \<Rightarrow> string option" where
  "scanVariableType varName [] = None"
| "scanVariableType varName (symb # rest) =
     (if sym_kind symb = ''variable'' \<or> sym_kind symb = ''constant''
         \<or> sym_kind symb = ''parameter'' \<or> sym_kind symb = ''field''
      then (if simpleName (sym_name symb) = varName \<and> sym_detail symb \<noteq> []
            then Some (sym_detail symb)
            else scanVariableType varName rest)
      else scanVariableType varName rest)"

definition findVariableType :: "'u SymbolCache \<Rightarrow> string \<Rightarrow> string \<Rightarrow> string option" where
  "findVariableType s filePath varName =
     (case map_of (cache s) filePath of
        None \<Rightarrow> None
      | Some result \<Rightarrow> scanVariableType varName (symbols result))"

section \<open>Go-to-definition (definition.ts)\<close>




section \<open>Completion (completion.ts)\<close>

datatype CompletionItemKind =
  KindFunction | KindClass | KindStruct | KindInterface | KindEnum | KindMethod
  | KindField | KindVariable | KindConstant | KindEnumMember | KindKeyword
  | KindTypeParameter

text \<open>
  \<open>completionKindMap\<close> and the priority table of the hover provider are plain JavaScript
  objects indexed by \<open>sym.kind\<close>. For a key the object does not own, the lookup gives
  the member the object inherits from \<open>Object.prototype\<close> when the key names one, and
  \<open>undefined\<close> otherwise; only \<open>undefined\<close> is replaced by the default after \<open>??\<close>.
\<close>

definition objectMembers :: "string list" where
  "objectMembers =
     [''constructor'', ''hasOwnProperty'', ''isPrototypeOf'', ''propertyIsEnumerable'',
      ''toLocaleString'', ''toString'', ''valueOf'', ''__proto__'', ''__defineGetter__'',
      ''__defineSetter__'', ''__lookupGetter__'', ''__lookupSetter__'']"

datatype KindValue = Kind CompletionItemKind | InheritedMember string

definition completionKindMap :: "(string \<times> CompletionItemKind) list" where
  "completionKindMap =
     [(''function'', KindFunction), (''class'', KindClass), (''struct'', KindStruct),
      (''interface'', KindInterface), (''enum'', KindEnum), (''method'', KindMethod),
      (''method_sig'', KindMethod), (''field'', KindField), (''variable'', KindVariable),
      (''constant'', KindConstant), (''parameter'', KindVariable),
      (''enum_variant'', KindEnumMember)]"

record CompletionItem =
  label :: string
  item_kind :: KindValue
  item_detail :: "string option"
  documentation :: "string option"
  insertText :: "string option"
  item_command :: "(string \<times> string) option"

definition symbolToCompletionItem :: "BismutSymbol \<Rightarrow> CompletionItem" where
  "symbolToCompletionItem symb =
     (let simple = simpleName (sym_name symb);
          kind = (case map_of completionKindMap (sym_kind symb) of
                    Some k \<Rightarrow> Kind k
                  | None \<Rightarrow> if sym_kind symb \<in> set objectMembers
                            then InheritedMember (sym_kind symb)
                            else Kind KindVariable);
          isCallable = (sym_kind symb = ''function'' \<or> sym_kind symb = ''method'')
      in \<lparr>label = simple,
          item_kind = kind,
          item_detail = (if sym_detail symb \<noteq> [] then Some (sym_detail symb) else None),
          documentation =
            (if sym_doc symb \<noteq> [] \<and> sym_kind symb \<noteq> ''field''
                \<and> sym_kind symb \<noteq> ''parameter''
             then Some (sym_doc symb) else None),
          insertText = (if isCallable then Some (simple @ ''($0)'') else None),
          item_command =
            (if isCallable
             then Some (''editor.action.triggerParameterHints'', ''Trigger Parameter Hints'')
             else None)\<rparr>)"

text \<open>
  provideDotCompletion extracts the identifier before the dot from the line's text with
  a regular expression; \<open>identMatch\<close> is that identifier, \<open>None\<close> when there is none.
\<close>

definition provideDotCompletion ::
  "'u SymbolCache \<Rightarrow> string \<Rightarrow> string option \<Rightarrow> CompletionItem list" where
  "provideDotCompletion s filePath identMatch =
     (case identMatch of
        None \<Rightarrow> []
      | Some varName \<Rightarrow>
          (let found = findVariableType s filePath varName;
               typeName = (case found of
                             None \<Rightarrow> varName
                           | Some t \<Rightarrow> if t = [] then varName else t);
               members = findMembers s typeName
           in if length members = 0
              then (let enumMembers = findMembers s varName
                    in if length enumMembers > 0
                       then map symbolToCompletionItem enumMembers
                       else [])
              else map symbolToCompletionItem
                     (filter (\<lambda>m. sym_kind m \<noteq> ''parameter'') members)))"

section \<open>Hover (hover.ts)\<close>

definition priority :: "(string \<times> nat) list" where
  "priority =
     [(''function'', 1), (''class'', 2), (''struct'', 3), (''interface'', 4), (''enum'', 5),
      (''method'', 6), (''field'', 7), (''constant'', 8), (''variable'', 9),
      (''method_sig'', 10), (''enum_variant'', 11), (''parameter'', 12)]"

text \<open>
  \<open>priority[kind] ?? 99\<close> as the comparator uses it: \<open>None\<close> when the value is an
  inherited member, which the subtraction turns into NaN.
\<close>

definition priorityValue :: "string \<Rightarrow> nat option" where
  "priorityValue kind =
     (case map_of priority kind of
        Some p \<Rightarrow> Some p
      | None \<Rightarrow> if kind \<in> set objectMembers then None else Some 99)"

text \<open>
  \<open>symbols.sort(...)\<close> in pickBestSymbol. When every priority is a number the comparator
  is consistent and the sort is the stable sort by priority. Otherwise the language
  leaves the order to the engine: \<open>engineOrder\<close> is the order the engine produces, a
  permutation of the array (an order that is not one is ignored).
\<close>

definition sortByPriority :: "BismutSymbol list \<Rightarrow> BismutSymbol list \<Rightarrow> BismutSymbol list" where
  "sortByPriority engineOrder syms =
     (if list_all (\<lambda>x. priorityValue (sym_kind x) \<noteq> None) syms
      then sort_key (\<lambda>x. case priorityValue (sym_kind x) of Some p \<Rightarrow> p | None \<Rightarrow> 99) syms
      else if mset engineOrder = mset syms then engineOrder else syms)"

text \<open>
  The lookups of provideHover, with the word under the cursor and the identifier before
  a dot in front of it as arguments (as for provideDefinition). \<open>symbols\<close> is the array
  the last call of findSymbolsByName returned. For an indexed name that is the array
  stored in \<open>globalSymbols\<close> itself, not a copy, so the model keeps the name beside it.
\<close>

definition hoverSymbols ::
  "'u SymbolCache \<Rightarrow> string \<Rightarrow> string \<Rightarrow> string option \<Rightarrow> string \<times> BismutSymbol list" where
  "hoverSymbols s filePath word dotMatch =
     (let found0 = ([], []);
          found1 =
            (case dotMatch of
               None \<Rightarrow> found0
             | Some parentName \<Rightarrow>
                 (let parentType = findVariableType s filePath parentName;
                      foundT = (case parentType of
                                  None \<Rightarrow> found0
                                | Some t \<Rightarrow>
                                    if t \<noteq> []
                                    then (t @ ''.'' @ word,
                                          findSymbolsByName s (t @ ''.'' @ word))
                                    else found0)
                  in if length (snd foundT) = 0
                     then (parentName @ ''.'' @ word,
                           findSymbolsByName s (parentName @ ''.'' @ word))
                     else foundT))
      in if length (snd found1) = 0 then (word, findSymbolsByName s word) else found1)"

text \<open>
  provideHover returns the hover built from the best symbol, here the symbol itself.
  pickBestSymbol sorts \<open>symbols\<close> in place, which writes the sorted order into the
  global index under the name looked up.
\<close>

definition provideHover ::
  "BismutSymbol list \<Rightarrow> 'u SymbolCache \<Rightarrow> string \<Rightarrow> string \<Rightarrow> string option
     \<Rightarrow> BismutSymbol option \<times> 'u SymbolCache" where
  "provideHover engineOrder s filePath word dotMatch =
     (case hoverSymbols s filePath word dotMatch of
        (name, syms) \<Rightarrow>
          if length syms = 0 then (None, s)
          else (let sorted = sortByPriority engineOrder syms
                in (case sorted of [] \<Rightarrow> None | best # rest \<Rightarrow> Some best,
                    s\<lparr>globalSymbols := AList.update name sorted (globalSymbols s)\<rparr>)))"

section \<open>The cache under the event loop\<close>

text \<open>
  The extension calls the cache from event handlers, one at a time. An event is a call
  of analyzeFile, the analyzer's answer to a running call, a call of clearFile or of
  clearAll, or a hover (with the order the engine's sort would leave, see
  \<open>sortByPriority\<close>). Beside the cache, the world records the analyzer invocations that
  have not answered yet and the log of all invocations started.
\<close>

datatype event =
  AnalyzeFile string
  | AnalyzerReturns string "AnalysisResult option"
  | ClearFile string
  | ClearAll
  | Hover string string "string option" "BismutSymbol list"

record 'u World =
  st :: "'u SymbolCache"
  inFlight :: "string list"
  invocations :: "string list"

definition newWorld :: "'u World" where
  "newWorld = \<lparr>st = newSymbolCache, inFlight = [], invocations = []\<rparr>"

fun fire :: "(string \<Rightarrow> 'u) \<Rightarrow> event \<Rightarrow> 'u World \<Rightarrow> 'u World" where
  "fire uriFile (AnalyzeFile f) w =
     (case analyzeFile_begin f (st w) of
        (Answered r, s') \<Rightarrow> w\<lparr>st := s'\<rparr>
      | (Invoked, s') \<Rightarrow>
          w\<lparr>st := s', inFlight := inFlight w @ [f], invocations := invocations w @ [f]\<rparr>)"
| "fire uriFile (AnalyzerReturns f r) w =
     (if f \<in> set (inFlight w)
      then w\<lparr>st := snd (analyzeFile_resume uriFile f r (st w)),
             inFlight := remove1 f (inFlight w)\<rparr>
      else w)"
| "fire uriFile (ClearFile f) w = w\<lparr>st := clearFile f (st w)\<rparr>"
| "fire uriFile ClearAll w = w\<lparr>st := clearAll (st w)\<rparr>"
| "fire uriFile (Hover filePath word dotMatch engineOrder) w =
     w\<lparr>st := snd (provideHover engineOrder (st w) filePath word dotMatch)\<rparr>"

definition run :: "(string \<Rightarrow> 'u) \<Rightarrow> event list \<Rightarrow> 'u World \<Rightarrow> 'u World" where
  "run uriFile es w = fold (fire uriFile) es w"

definition reached :: "(string \<Rightarrow> 'u) \<Rightarrow> event list \<Rightarrow> 'u SymbolCache" where
  "reached uriFile es = st (run uriFile es newWorld)"

section \<open>Specification vocabulary\<close>

text \<open>
  A symbol is listed under a name when the name is its full name, or its full name is
  dotted and the name is the part after the last dot.
\<close>

definition indexedUnder :: "string \<Rightarrow> BismutSymbol \<Rightarrow> bool" where
  "indexedUnder n symb =
     (sym_name symb = n \<or> (includesDot (sym_name symb) \<and> splitPop (sym_name symb) = n))"

text \<open>The per-file name indices of the files currently in the cache, in cache order.\<close>

definition fileIndices :: "'u SymbolCache \<Rightarrow> (string, nameindex) jsmap" where
  "fileIndices s = map (\<lambda>e. (fst e, fileIndex (symbols (snd e)))) (cache s)"

text \<open>The union of per-file indices at a name: each file's list for the name, in file order.\<close>

definition unionOfFileIndices :: "(string, nameindex) jsmap \<Rightarrow> string \<Rightarrow> BismutSymbol list" where
  "unionOfFileIndices N n = concat (map (\<lambda>e. getOrEmpty (snd e) n) N)"

text \<open>
  The invariant of the cache: the per-file indices are those of the cached results, and
  no path is cached twice. Right after an ingest or a removal the cache is moreover
  consistent: the global index is the merge of the per-file indices. At any time the
  global index lists under a name the symbols the per-file indices list, in some order.
\<close>

definition indexed :: "'u SymbolCache \<Rightarrow> bool" where
  "indexed s = (nameIndex s = fileIndices s \<and> distinct (map fst (cache s)))"

definition consistent :: "'u SymbolCache \<Rightarrow> bool" where
  "consistent s = (indexed s \<and> globalSymbols s = fold mergeIndex (nameIndex s) [])"

definition sameSymbols :: "'u SymbolCache \<Rightarrow> bool" where
  "sameSymbols s =
     (\<forall>n. mset (findSymbolsByName s n) = mset (unionOfFileIndices (nameIndex s) n))"

text \<open>
  The running invocations are tracked faithfully: no path twice, and exactly the paths
  in \<open>analyzing\<close>.
\<close>

definition wellTracked :: "'u World \<Rightarrow> bool" where
  "wellTracked w = (distinct (inFlight w) \<and> set (inFlight w) = analyzing (st w))"

text \<open>A typed variable for a name, as findVariableType tests it.\<close>

definition typedVariable :: "string \<Rightarrow> BismutSymbol \<Rightarrow> bool" where
  "typedVariable varName symb =
     (sym_kind symb \<in> {''variable'', ''constant'', ''parameter'', ''field''}
      \<and> simpleName (sym_name symb) = varName \<and> sym_detail symb \<noteq> [])"

text \<open>The receiver's resolved type in dot completion: the type found, else the identifier.\<close>

definition resolvedType :: "'u SymbolCache \<Rightarrow> string \<Rightarrow> string \<Rightarrow> string" where
  "resolvedType s filePath varName =
     (case findVariableType s filePath varName of Some t \<Rightarrow> t | None \<Rightarrow> varName)"

section \<open>Example values\<close>

definition mkSymbol :: "string \<Rightarrow> string \<Rightarrow> string \<Rightarrow> string \<Rightarrow> BismutSymbol" where
  "mkSymbol name kind detail parent =
     \<lparr>sym_name = name, sym_kind = kind, sym_file = ''a.mut'', sym_line = 1, sym_col = 1,
      sym_doc = [], sym_detail = detail, sym_parent = parent\<rparr>"

definition mkResult :: "string \<Rightarrow> BismutSymbol list \<Rightarrow> AnalysisResult" where
  "mkResult file syms =
     \<lparr>success = True, r_file = file, error_count = 0, warning_count = 0,
      diagnostics = [], symbols = syms\<rparr>"

text \<open>A \<open>Uri.file\<close> that keeps the path as it is.\<close>

definition pathUri :: "string \<Rightarrow> string" where
  "pathUri p = p"

definition mkDiagnostic :: "string \<Rightarrow> int \<Rightarrow> int \<Rightarrow> int \<Rightarrow> BismutDiagnostic" where
  "mkDiagnostic sev l c n =
     \<lparr>d_severity = sev, d_file = [], d_line = l, d_col = c, d_span = n,
      d_message = ''undefined symbol''\<rparr>"

section \<open>Strings and maps\<close>

lemmas eval_defs = reached_def run_def newWorld_def newSymbolCache_def analyzeFile_begin_def
  analyzeFile_resume_def ingest_def buildIndex_def rebuildGlobalIndex_def publishDiagnostics_def
  groupByFile_def groupStep_def fileIndex_def indexStep_def mergeIndex_def mergeEntry_def
  getOrEmpty_def includesDot_def splitPop_def simpleName_def clearFile_def clearAll_def
  findSymbolsByName_def mkSymbol_def mkResult_def pathUri_def Let_def

lemma split_nonempty: "split c s \<noteq> []"
  by (induction s) (auto split: list.splits)

lemma split_no_sep: "c \<notin> set s \<Longrightarrow> split c s = [s]"
  by (induction s) auto

lemma length_split: "length (split c s) = Suc (length (filter (\<lambda>x. x = c) s))"
  by (induction s) (auto split: list.splits simp: split_nonempty)

lemma split_two: "c \<in> set s \<Longrightarrow> \<exists>w v ws. split c s = w # v # ws"
proof -
  assume "c \<in> set s"
  then have "filter (\<lambda>x. x = c) s \<noteq> []" by (simp add: filter_empty_conv)
  then have "2 \<le> length (split c s)" by (cases "filter (\<lambda>x. x = c) s") (auto simp: length_split)
  then show ?thesis by (cases "split c s"; cases "tl (split c s)") auto
qed

lemma last_split_no_sep: "c \<notin> set (last (split c s))"
proof (induction s)
  case Nil
  then show ?case by simp
next
  case (Cons x xs)
  then show ?case using split_nonempty[of c xs]
    by (cases "split c xs") (auto split: if_splits)
qed

lemma split_last_suffix: "c \<in> set s \<Longrightarrow> \<exists>pre. s = pre @ c # last (split c s)"
proof (induction s)
  case Nil
  then show ?case by simp
next
  case (Cons x xs)
  show ?case
  proof (cases "c \<in> set xs")
    case True
    then obtain pre where pre: "xs = pre @ c # last (split c xs)" using Cons.IH by blast
    obtain w v ws where sp: "split c xs = w # v # ws" using split_two[OF True] by blast
    have "last (split c (x # xs)) = last (split c xs)" using sp by auto
    then have "x # xs = (x # pre) @ c # last (split c (x # xs))" using pre by simp
    then show ?thesis by blast
  next
    case False
    then have "x = c" using Cons.prems by simp
    then have "x # xs = [] @ c # last (split c (x # xs))"
      using False by (simp add: split_no_sep)
    then show ?thesis by blast
  qed
qed

lemma simpleName_no_dot: "\<not> includesDot (simpleName n)"
  using last_split_no_sep[of "CHR ''.''" n]
  by (simp add: simpleName_def includesDot_def splitPop_def)

lemma splitPop_neq: "includesDot n \<Longrightarrow> splitPop n \<noteq> n"
  using last_split_no_sep[of "CHR ''.''" n]
  by (auto simp add: includesDot_def splitPop_def)

lemma getOrEmpty_update:
  "getOrEmpty (AList.update k v m) k' = (if k' = k then v else getOrEmpty m k')"
  by (simp add: getOrEmpty_def update_conv')

lemma getOrEmpty_indexStep:
  "getOrEmpty (indexStep x idx) n = getOrEmpty idx n @ (if indexedUnder n x then [x] else [])"
  using splitPop_neq[of "sym_name x"]
  by (auto simp: indexStep_def Let_def getOrEmpty_update indexedUnder_def)

lemma getOrEmpty_fold_indexStep:
  "getOrEmpty (fold indexStep syms idx) n = getOrEmpty idx n @ filter (indexedUnder n) syms"
  by (induction syms arbitrary: idx) (auto simp: getOrEmpty_indexStep)

lemma getOrEmpty_Nil: "getOrEmpty [] n = []"
  by (simp add: getOrEmpty_def)

lemma getOrEmpty_fileIndex: "getOrEmpty (fileIndex syms) n = filter (indexedUnder n) syms"
  by (simp add: fileIndex_def getOrEmpty_fold_indexStep getOrEmpty_Nil)

lemma distinct_indexStep: "distinct (map fst idx) \<Longrightarrow> distinct (map fst (indexStep x idx))"
  by (simp add: indexStep_def Let_def distinct_update)

lemma distinct_fold_indexStep:
  "distinct (map fst idx) \<Longrightarrow> distinct (map fst (fold indexStep syms idx))"
  by (induction syms arbitrary: idx) (auto simp: distinct_indexStep)

lemma distinct_fileIndex: "distinct (map fst (fileIndex syms))"
  by (simp add: fileIndex_def distinct_fold_indexStep)

lemma getOrEmpty_mergeEntry:
  "getOrEmpty (mergeEntry e g) n = getOrEmpty g n @ (if fst e = n then snd e else [])"
  by (cases e) (auto simp: mergeEntry_def Let_def getOrEmpty_update)

lemma getOrEmpty_fold_mergeEntry:
  "getOrEmpty (fold mergeEntry idx g) n
     = getOrEmpty g n @ concat (map snd (filter (\<lambda>e. fst e = n) idx))"
  by (induction idx arbitrary: g) (auto simp: getOrEmpty_mergeEntry)

lemma concat_filter_key:
  "distinct (map fst idx) \<Longrightarrow> concat (map snd (filter (\<lambda>e. fst e = n) idx)) = getOrEmpty idx n"
proof (induction idx)
  case Nil
  then show ?case by (simp add: getOrEmpty_def)
next
  case (Cons e idx)
  show ?case
  proof (cases "fst e = n")
    case True
    then have "n \<notin> fst ` set idx" using Cons.prems by auto
    then have "filter (\<lambda>e. fst e = n) idx = []" by (auto simp: filter_empty_conv)
    then show ?thesis using True by (cases e) (simp add: getOrEmpty_def)
  next
    case False
    then show ?thesis using Cons by (cases e) (auto simp: getOrEmpty_def)
  qed
qed

lemma getOrEmpty_fold_mergeIndex:
  "\<forall>e \<in> set N. distinct (map fst (snd e)) \<Longrightarrow>
   getOrEmpty (fold mergeIndex N g) n = getOrEmpty g n @ unionOfFileIndices N n"
  by (induction N arbitrary: g)
     (auto simp: mergeIndex_def getOrEmpty_fold_mergeEntry concat_filter_key unionOfFileIndices_def)

section \<open>The invariant of the index\<close>

lemma ingest_fields:
  "cache (ingest uriFile f r s) = AList.update f r (cache s)"
  "nameIndex (ingest uriFile f r s) = AList.update f (fileIndex (symbols r)) (nameIndex s)"
  "globalSymbols (ingest uriFile f r s)
     = fold mergeIndex (AList.update f (fileIndex (symbols r)) (nameIndex s)) []"
  "analyzing (ingest uriFile f r s) = analyzing s"
  by (simp_all add: ingest_def buildIndex_def rebuildGlobalIndex_def publishDiagnostics_def Let_def)

lemma clearFile_fields:
  "cache (clearFile f s) = AList.delete f (cache s)"
  "nameIndex (clearFile f s) = AList.delete f (nameIndex s)"
  "globalSymbols (clearFile f s) = fold mergeIndex (AList.delete f (nameIndex s)) []"
  "analyzing (clearFile f s) = analyzing s"
  "diagnosticCollection (clearFile f s) = diagnosticCollection s"
  by (simp_all add: clearFile_def rebuildGlobalIndex_def)

lemma map_snd_update:
  "map (\<lambda>e. (fst e, h (snd e))) (AList.update k v al)
     = AList.update k (h v) (map (\<lambda>e. (fst e, h (snd e))) al)"
  by (induction al) auto

lemma map_snd_delete:
  "map (\<lambda>e. (fst e, h (snd e))) (AList.delete k al)
     = AList.delete k (map (\<lambda>e. (fst e, h (snd e))) al)"
  by (induction al) (auto simp: AList.delete_eq)

lemma indexed_new: "indexed newSymbolCache"
  by (simp add: indexed_def newSymbolCache_def fileIndices_def)

lemma indexed_ingest: "indexed s \<Longrightarrow> indexed (ingest uriFile f r s)"
  using map_snd_update[of "\<lambda>r. fileIndex (symbols r)" f r "cache s"]
  by (simp add: indexed_def fileIndices_def ingest_fields distinct_update)

lemma indexed_clearFile: "indexed s \<Longrightarrow> indexed (clearFile f s)"
  using map_snd_delete[of "\<lambda>r. fileIndex (symbols r)" f "cache s"]
  by (simp add: indexed_def fileIndices_def clearFile_fields distinct_delete)

lemma indexed_clearAll: "indexed (clearAll s)"
  by (simp add: indexed_def fileIndices_def clearAll_def)

lemma consistent_ingest: "indexed s \<Longrightarrow> consistent (ingest uriFile f r s)"
  by (simp add: consistent_def indexed_ingest ingest_fields)

lemma consistent_clearFile: "indexed s \<Longrightarrow> consistent (clearFile f s)"
  by (simp add: consistent_def indexed_clearFile clearFile_fields)

lemma consistent_clearAll: "consistent (clearAll s)"
  by (simp add: consistent_def indexed_clearAll) (simp add: clearAll_def)

lemma consistent_new: "consistent newSymbolCache"
  by (simp add: consistent_def indexed_new) (simp add: newSymbolCache_def)

lemma fileIndices_distinct: "\<forall>e \<in> set (fileIndices s). distinct (map fst (snd e))"
  by (auto simp: fileIndices_def distinct_fileIndex)

lemma consistent_lookup:
  "consistent s \<Longrightarrow> findSymbolsByName s n = unionOfFileIndices (fileIndices s) n"
  using fileIndices_distinct[of s]
  by (simp add: consistent_def indexed_def findSymbolsByName_def getOrEmpty_fold_mergeIndex
        getOrEmpty_Nil)

lemma union_fileIndices_symbols:
  "unionOfFileIndices (fileIndices s) n
     = concat (map (\<lambda>e. filter (indexedUnder n) (symbols (snd e))) (cache s))"
  by (simp add: unionOfFileIndices_def fileIndices_def getOrEmpty_fileIndex comp_def)

lemma consistent_sameSymbols: "consistent s \<Longrightarrow> sameSymbols s"
  using consistent_lookup[of s] by (simp add: sameSymbols_def consistent_def indexed_def)

subsection \<open>A hover permutes one list of the global index\<close>

lemma mset_sortByPriority: "mset (sortByPriority engineOrder syms) = mset syms"
  by (simp add: sortByPriority_def)

lemma hoverSymbols_stored:
  "hoverSymbols s fp word dm = (name, syms) \<Longrightarrow> syms = [] \<or> syms = findSymbolsByName s name"
  by (auto simp: hoverSymbols_def Let_def split: option.splits if_splits)

lemma provideHover_fields:
  "cache (snd (provideHover eo s fp word dm)) = cache s"
  "nameIndex (snd (provideHover eo s fp word dm)) = nameIndex s"
  "analyzing (snd (provideHover eo s fp word dm)) = analyzing s"
  "diagnosticCollection (snd (provideHover eo s fp word dm)) = diagnosticCollection s"
  by (simp_all add: provideHover_def Let_def split: prod.splits)

lemma provideHover_lookup:
  "mset (findSymbolsByName (snd (provideHover eo s fp word dm)) n)
     = mset (findSymbolsByName s n)"
proof (cases "hoverSymbols s fp word dm")
  case (Pair name syms)
  show ?thesis
  proof (cases "syms = []")
    case True
    then show ?thesis using Pair by (simp add: provideHover_def)
  next
    case False
    then have st: "syms = findSymbolsByName s name"
      using hoverSymbols_stored[OF Pair] by simp
    have "findSymbolsByName (snd (provideHover eo s fp word dm)) n
            = (if n = name then sortByPriority eo syms else findSymbolsByName s n)"
      using Pair False
      by (simp add: provideHover_def Let_def findSymbolsByName_def getOrEmpty_update)
    then show ?thesis using st by (simp add: mset_sortByPriority)
  qed
qed

lemma indexed_hover: "indexed s \<Longrightarrow> indexed (snd (provideHover eo s fp word dm))"
  by (simp add: indexed_def fileIndices_def provideHover_fields)

lemma sameSymbols_hover: "sameSymbols s \<Longrightarrow> sameSymbols (snd (provideHover eo s fp word dm))"
  by (simp add: sameSymbols_def provideHover_lookup provideHover_fields)

text \<open>An ingest or a removal rebuilds the global index and so discards the hover's order.\<close>

lemma ingest_after_hover:
  "ingest uriFile f r (snd (provideHover eo s fp word dm)) = ingest uriFile f r s"
  by (simp add: provideHover_def ingest_def buildIndex_def rebuildGlobalIndex_def
        publishDiagnostics_def Let_def split: prod.splits)

lemma clearFile_after_hover:
  "clearFile f (snd (provideHover eo s fp word dm)) = clearFile f s"
  by (simp add: provideHover_def clearFile_def rebuildGlobalIndex_def Let_def split: prod.splits)

subsection \<open>Every reached state\<close>

lemma indexed_analyzing: "indexed (s\<lparr>analyzing := A\<rparr>) = indexed s"
  by (simp add: indexed_def fileIndices_def)

lemma sameSymbols_analyzing: "sameSymbols (s\<lparr>analyzing := A\<rparr>) = sameSymbols s"
  by (simp add: sameSymbols_def findSymbolsByName_def)

lemma invariant_begin:
  "indexed s \<and> sameSymbols s
     \<Longrightarrow> indexed (snd (analyzeFile_begin f s)) \<and> sameSymbols (snd (analyzeFile_begin f s))"
  by (simp add: analyzeFile_begin_def indexed_analyzing sameSymbols_analyzing)

lemma invariant_resume:
  "indexed s \<and> sameSymbols s
     \<Longrightarrow> indexed (snd (analyzeFile_resume uriFile f r s))
         \<and> sameSymbols (snd (analyzeFile_resume uriFile f r s))"
  by (cases r)
     (simp_all add: analyzeFile_resume_def Let_def indexed_analyzing sameSymbols_analyzing
        indexed_ingest consistent_ingest consistent_sameSymbols)

lemma invariant_fire:
  assumes "indexed (st w) \<and> sameSymbols (st w)"
  shows "indexed (st (fire uriFile e w)) \<and> sameSymbols (st (fire uriFile e w))"
proof (cases e)
  case (AnalyzeFile f)
  have "indexed (snd (analyzeFile_begin f (st w))) \<and> sameSymbols (snd (analyzeFile_begin f (st w)))"
    using assms by (rule invariant_begin)
  then show ?thesis using AnalyzeFile by (auto split: prod.splits begun.splits)
next
  case (AnalyzerReturns f r)
  then show ?thesis using assms invariant_resume[of "st w" uriFile f r] by simp
next
  case (ClearFile f)
  then show ?thesis
    using assms by (simp add: indexed_clearFile consistent_clearFile consistent_sameSymbols)
next
  case ClearAll
  then show ?thesis
    by (simp add: indexed_clearAll consistent_clearAll consistent_sameSymbols)
next
  case (Hover fp word dm eo)
  then show ?thesis using assms by (simp add: indexed_hover sameSymbols_hover)
qed

lemma invariant_run:
  "indexed (st w) \<and> sameSymbols (st w)
     \<Longrightarrow> indexed (st (run uriFile es w)) \<and> sameSymbols (st (run uriFile es w))"
  unfolding run_def by (induction es arbitrary: w) (simp_all add: invariant_fire)

lemma invariant_reached: "indexed (reached uriFile es) \<and> sameSymbols (reached uriFile es)"
  unfolding reached_def
  by (rule invariant_run)
     (simp add: newWorld_def indexed_new consistent_new consistent_sameSymbols)

lemma indexed_reached: "indexed (reached uriFile es)"
  using invariant_reached[of uriFile es] by simp

section \<open>The global index\<close>

lemma delete_filter: "AList.delete k al = filter (\<lambda>e. fst e \<noteq> k) al"
  by (induction al) (auto simp: AList.delete_eq)

text \<open>
  C1. Right after every ingest of an analysis result and right after every removal of a
  file, in whatever state the cache was, the per-file name indices are those of the
  results currently cached, and under every name the global index lists exactly the
  symbols the per-file indices list under it, file by file in cache order. These are
  the symbols of the cached results whose full or simple name is the name. After
  clearFile the lookup of a name is the same concatenation over the other files only:
  the symbols of the removed file are gone and those of every other file stay, in order,
  also under a name the removed file shared. In every state the cache reaches, so also
  after hovers (which sort a list of the global index in place), the per-file indices
  are those of the cached results and the global index lists under every name the same
  symbols as they do, each as often, possibly in another order.
\<close>

theorem global_index_is_union:
  "(\<forall>n. findSymbolsByName (ingest uriFile f r (reached uriFile es)) n
          = unionOfFileIndices (nameIndex (ingest uriFile f r (reached uriFile es))) n)
   \<and> nameIndex (ingest uriFile f r (reached uriFile es))
       = fileIndices (ingest uriFile f r (reached uriFile es))
   \<and> (\<forall>n. findSymbolsByName (clearFile f (reached uriFile es)) n
          = unionOfFileIndices (nameIndex (clearFile f (reached uriFile es))) n)
   \<and> nameIndex (clearFile f (reached uriFile es)) = fileIndices (clearFile f (reached uriFile es))
   \<and> (\<forall>n. findSymbolsByName (clearFile f (reached uriFile es)) n
          = concat (map (\<lambda>e. filter (indexedUnder n) (symbols (snd e)))
                        (filter (\<lambda>e. fst e \<noteq> f) (cache (reached uriFile es)))))
   \<and> (\<forall>n. findSymbolsByName (ingest uriFile f r (reached uriFile es)) n
          = concat (map (\<lambda>e. filter (indexedUnder n) (symbols (snd e)))
                        (cache (ingest uriFile f r (reached uriFile es)))))
   \<and> nameIndex (reached uriFile es) = fileIndices (reached uriFile es)
   \<and> (\<forall>n. mset (findSymbolsByName (reached uriFile es) n)
          = mset (unionOfFileIndices (nameIndex (reached uriFile es)) n))
   \<and> (\<forall>n. mset (findSymbolsByName (reached uriFile es) n)
          = mset (concat (map (\<lambda>e. filter (indexedUnder n) (symbols (snd e)))
                              (cache (reached uriFile es)))))"
proof -
  let ?s = "reached uriFile es"
  have i0: "indexed ?s" by (rule indexed_reached)
  have p0: "sameSymbols ?s" using invariant_reached[of uriFile es] by simp
  have c1: "consistent (ingest uriFile f r ?s)" using i0 by (rule consistent_ingest)
  have c2: "consistent (clearFile f ?s)" using i0 by (rule consistent_clearFile)
  have n0: "nameIndex ?s = fileIndices ?s" using i0 by (simp add: indexed_def)
  have n1: "nameIndex (ingest uriFile f r ?s) = fileIndices (ingest uriFile f r ?s)"
    using c1 by (simp add: consistent_def indexed_def)
  have n2: "nameIndex (clearFile f ?s) = fileIndices (clearFile f ?s)"
    using c2 by (simp add: consistent_def indexed_def)
  have l1: "\<forall>n. findSymbolsByName (ingest uriFile f r ?s) n
          = unionOfFileIndices (nameIndex (ingest uriFile f r ?s)) n"
    using consistent_lookup[OF c1] n1 by simp
  have l2: "\<forall>n. findSymbolsByName (clearFile f ?s) n
          = unionOfFileIndices (nameIndex (clearFile f ?s)) n"
    using consistent_lookup[OF c2] n2 by simp
  have l3: "\<forall>n. findSymbolsByName (clearFile f ?s) n
          = concat (map (\<lambda>e. filter (indexedUnder n) (symbols (snd e)))
                        (filter (\<lambda>e. fst e \<noteq> f) (cache ?s)))"
    using consistent_lookup[OF c2]
    by (simp add: union_fileIndices_symbols clearFile_fields delete_filter)
  have l4: "\<forall>n. findSymbolsByName (ingest uriFile f r ?s) n
          = concat (map (\<lambda>e. filter (indexedUnder n) (symbols (snd e)))
                        (cache (ingest uriFile f r ?s)))"
    using consistent_lookup[OF c1] by (simp add: union_fileIndices_symbols)
  have m0: "\<forall>n. mset (findSymbolsByName ?s n) = mset (unionOfFileIndices (nameIndex ?s) n)"
    using p0 by (simp add: sameSymbols_def)
  have m1: "\<forall>n. mset (findSymbolsByName ?s n)
          = mset (concat (map (\<lambda>e. filter (indexedUnder n) (symbols (snd e))) (cache ?s)))"
    using m0 n0 union_fileIndices_symbols[of ?s] by simp
  show ?thesis by (intro conjI) (rule n0 n1 n2 l1 l2 l3 l4 m0 m1)+
qed

lemma publish_fold:
  "fold (\<lambda>(file, diags) dc. dc(u file \<mapsto> g diags)) xs m
     = m ++ map_of (rev (map (\<lambda>e. (u (fst e), g (snd e))) xs))"
  by (induction xs arbitrary: m) (auto simp: map_add_def fun_eq_iff split: option.splits)

lemma publish_idem: "publishDiagnostics uriFile r (publishDiagnostics uriFile r s) = publishDiagnostics uriFile r s"
  by (auto simp: publishDiagnostics_def Let_def publish_fold map_add_def fun_eq_iff
           split: option.splits)

lemma ingest_diagnostics:
  "diagnosticCollection (ingest uriFile f r s)
     = diagnosticCollection (publishDiagnostics uriFile r s)"
  by (simp add: ingest_def buildIndex_def rebuildGlobalIndex_def publishDiagnostics_def Let_def)

lemma ingest_diagnostics_twice:
  "diagnosticCollection (ingest uriFile f r (ingest uriFile f r s)) = diagnosticCollection (ingest uriFile f r s)"
proof -
  have "diagnosticCollection (ingest uriFile f r (ingest uriFile f r s))
          = diagnosticCollection (publishDiagnostics uriFile r (ingest uriFile f r s))"
    by (rule ingest_diagnostics)
  also have "\<dots> = diagnosticCollection (publishDiagnostics uriFile r (publishDiagnostics uriFile r s))"
    using ingest_diagnostics[of uriFile f r s]
    by (simp add: publishDiagnostics_def Let_def)
  finally show ?thesis by (simp add: publish_idem ingest_diagnostics)
qed

text \<open>
  C3. Ingesting the same result for the same file twice in succession gives the same
  global index as ingesting it once: the same association list, so the same names with
  the same symbol sequences in the same order. The cached results, the per-file indices
  and the published diagnostics are the same too; the whole state is.
\<close>

theorem ingest_idempotent:
  "globalSymbols (ingest uriFile f r (ingest uriFile f r s)) = globalSymbols (ingest uriFile f r s)
   \<and> nameIndex (ingest uriFile f r (ingest uriFile f r s)) = nameIndex (ingest uriFile f r s)
   \<and> cache (ingest uriFile f r (ingest uriFile f r s)) = cache (ingest uriFile f r s)
   \<and> diagnosticCollection (ingest uriFile f r (ingest uriFile f r s)) = diagnosticCollection (ingest uriFile f r s)
   \<and> ingest uriFile f r (ingest uriFile f r s) = ingest uriFile f r s"
proof -
  have g: "globalSymbols (ingest uriFile f r (ingest uriFile f r s)) = globalSymbols (ingest uriFile f r s)"
    by (simp add: ingest_fields)
  have n: "nameIndex (ingest uriFile f r (ingest uriFile f r s)) = nameIndex (ingest uriFile f r s)"
    by (simp add: ingest_fields)
  have c: "cache (ingest uriFile f r (ingest uriFile f r s)) = cache (ingest uriFile f r s)"
    by (simp add: ingest_fields)
  have a: "analyzing (ingest uriFile f r (ingest uriFile f r s)) = analyzing (ingest uriFile f r s)"
    by (simp add: ingest_fields)
  have d: "diagnosticCollection (ingest uriFile f r (ingest uriFile f r s)) = diagnosticCollection (ingest uriFile f r s)"
    by (rule ingest_diagnostics_twice)
  have "ingest uriFile f r (ingest uriFile f r s) = ingest uriFile f r s"
    using g n c a d by (intro SymbolCache.equality) simp_all
  then show ?thesis using g n c d by simp
qed

lemma update_map_present:
  "distinct (map fst al) \<Longrightarrow> k \<in> fst ` set al \<Longrightarrow>
   AList.update k v al = map (\<lambda>e. if fst e = k then (k, v) else e) al"
proof (induction al)
  case Nil
  then show ?case by simp
next
  case (Cons a al)
  show ?case
  proof (cases "fst a = k")
    case True
    then have "k \<notin> fst ` set al" using Cons.prems by auto
    then have "map (\<lambda>e. if fst e = k then (k, v) else e) al = al"
      by (induction al) auto
    then show ?thesis using True by simp
  next
    case False
    then show ?thesis using Cons by auto
  qed
qed

lemma set_update_subset: "set (AList.update k v al) \<subseteq> insert (k, v) (set al)"
  by (induction al) auto

lemma ingest_lookup_symbols:
  assumes "indexed s"
  shows "findSymbolsByName (ingest uriFile F R2 (ingest uriFile F R1 s)) n
    = concat (map (\<lambda>e. filter (indexedUnder n) (symbols (if fst e = F then R2 else snd e)))
                   (cache (ingest uriFile F R1 s)))"
proof -
  let ?s1 = "ingest uriFile F R1 s"
  have c1: "indexed ?s1" using assms by (rule indexed_ingest)
  have c2: "consistent (ingest uriFile F R2 ?s1)" using c1 by (rule consistent_ingest)
  have d: "distinct (map fst (cache ?s1))" using c1 by (simp add: indexed_def)
  have k: "F \<in> fst ` set (cache ?s1)" by (simp add: ingest_fields dom_update)
  have "cache (ingest uriFile F R2 ?s1) = AList.update F R2 (cache ?s1)"
    by (rule ingest_fields(1))
  also have "\<dots> = map (\<lambda>e. if fst e = F then (F, R2) else e) (cache ?s1)"
    by (rule update_map_present[OF d k])
  finally have "concat (map (\<lambda>e. filter (indexedUnder n) (symbols (snd e))) (cache (ingest uriFile F R2 ?s1)))
     = concat (map (\<lambda>e. filter (indexedUnder n) (symbols (snd e)))
          (map (\<lambda>e. if fst e = F then (F, R2) else e) (cache ?s1)))"
    by simp
  also have "\<dots> = concat (map (\<lambda>e. filter (indexedUnder n) (symbols (if fst e = F then R2 else snd e)))
                   (cache ?s1))"
    by (auto simp: comp_def intro!: arg_cong[where f = concat])
  finally have "concat (map (\<lambda>e. filter (indexedUnder n) (symbols (snd e))) (cache (ingest uriFile F R2 ?s1)))
     = concat (map (\<lambda>e. filter (indexedUnder n) (symbols (if fst e = F then R2 else snd e)))
                   (cache ?s1))" .
  then show ?thesis using consistent_lookup[OF c2] by (simp add: union_fileIndices_symbols)
qed

text \<open>
  C2. After ingesting \<open>R1\<close> and then \<open>R2\<close> for the file \<open>F\<close>, the index entry of \<open>F\<close> is
  the index of \<open>R2\<close> alone, which lists under a name exactly the symbols of \<open>R2\<close> with
  that full or simple name; the entry of every other file and the order of the files
  are as they were before the second ingest. The global index is the union of these
  entries: under every name it lists, for \<open>F\<close>, the symbols of \<open>R2\<close> and, for every other
  file, the symbols of its cached result. So a symbol of \<open>R1\<close> that is not in \<open>R2\<close> and
  that no other cached file contributes is listed under no name.
\<close>

theorem replacement_frame:
  "map_of (nameIndex (ingest uriFile F R2 (ingest uriFile F R1 (reached uriFile es)))) F = Some (fileIndex (symbols R2))
   \<and> (\<forall>n. getOrEmpty (fileIndex (symbols R2)) n = filter (indexedUnder n) (symbols R2))
   \<and> (\<forall>G. G \<noteq> F \<longrightarrow>
         map_of (nameIndex (ingest uriFile F R2 (ingest uriFile F R1 (reached uriFile es)))) G
           = map_of (nameIndex (ingest uriFile F R1 (reached uriFile es))) G)
   \<and> map fst (nameIndex (ingest uriFile F R2 (ingest uriFile F R1 (reached uriFile es))))
       = map fst (nameIndex (ingest uriFile F R1 (reached uriFile es)))
   \<and> (\<forall>n. findSymbolsByName (ingest uriFile F R2 (ingest uriFile F R1 (reached uriFile es))) n
          = unionOfFileIndices (nameIndex (ingest uriFile F R2 (ingest uriFile F R1 (reached uriFile es)))) n)
   \<and> (\<forall>n. findSymbolsByName (ingest uriFile F R2 (ingest uriFile F R1 (reached uriFile es))) n
          = concat (map (\<lambda>e. filter (indexedUnder n)
                                 (symbols (if fst e = F then R2 else snd e)))
                        (cache (ingest uriFile F R1 (reached uriFile es)))))
   \<and> (\<forall>x n. x \<in> set (symbols R1) \<and> x \<notin> set (symbols R2)
            \<and> (\<forall>e \<in> set (cache (reached uriFile es)). fst e \<noteq> F \<longrightarrow> x \<notin> set (symbols (snd e)))
          \<longrightarrow> x \<notin> set (findSymbolsByName (ingest uriFile F R2 (ingest uriFile F R1 (reached uriFile es))) n))"
proof -
  let ?s0 = "reached uriFile es"
  let ?s1 = "ingest uriFile F R1 ?s0"
  let ?s2 = "ingest uriFile F R2 ?s1"
  have c0: "indexed ?s0" by (rule indexed_reached)
  have c1: "indexed ?s1" using c0 by (rule indexed_ingest)
  have c2: "consistent ?s2" using c1 by (rule consistent_ingest)
  have a: "map_of (nameIndex ?s2) F = Some (fileIndex (symbols R2))"
    by (simp add: ingest_fields update_conv')
  have b: "\<forall>n. getOrEmpty (fileIndex (symbols R2)) n = filter (indexedUnder n) (symbols R2)"
    by (simp add: getOrEmpty_fileIndex)
  have c: "\<forall>G. G \<noteq> F \<longrightarrow> map_of (nameIndex ?s2) G = map_of (nameIndex ?s1) G"
    by (simp add: ingest_fields update_conv')
  have d: "map fst (nameIndex ?s2) = map fst (nameIndex ?s1)"
    by (simp add: ingest_fields update_keys)
  have e: "\<forall>n. findSymbolsByName ?s2 n = unionOfFileIndices (nameIndex ?s2) n"
    using consistent_lookup[OF c2] c2 by (simp add: consistent_def indexed_def)
  have f: "\<forall>n. findSymbolsByName ?s2 n
          = concat (map (\<lambda>e. filter (indexedUnder n)
                                 (symbols (if fst e = F then R2 else snd e))) (cache ?s1))"
    using ingest_lookup_symbols[OF c0] by simp
  have g: "\<forall>x n. x \<in> set (symbols R1) \<and> x \<notin> set (symbols R2)
            \<and> (\<forall>e \<in> set (cache ?s0). fst e \<noteq> F \<longrightarrow> x \<notin> set (symbols (snd e)))
          \<longrightarrow> x \<notin> set (findSymbolsByName ?s2 n)"
  proof (intro allI impI notI)
    fix x n
    assume h: "x \<in> set (symbols R1) \<and> x \<notin> set (symbols R2)
            \<and> (\<forall>e \<in> set (cache ?s0). fst e \<noteq> F \<longrightarrow> x \<notin> set (symbols (snd e)))"
    assume "x \<in> set (findSymbolsByName ?s2 n)"
    then obtain e where e: "e \<in> set (cache ?s1)"
      and xe: "x \<in> set (symbols (if fst e = F then R2 else snd e))"
      using f by auto
    have ne: "fst e \<noteq> F" using xe h by auto
    have "set (cache ?s1) \<subseteq> insert (F, R1) (set (cache ?s0))"
      using set_update_subset[of F R1 "cache ?s0"] by (simp add: ingest_fields)
    then have "e \<in> set (cache ?s0)" using e ne by auto
    then show False using h ne xe by auto
  qed
  show ?thesis by (intro conjI) (rule a b c d e f g)+
qed

theorem replacement_frame_witness:
  "map_of (nameIndex
       (ingest pathUri ''a.mut'' (mkResult ''a.mut'' [mkSymbol ''y'' ''variable'' [] []])
         (ingest pathUri ''a.mut''
            (mkResult ''a.mut'' [mkSymbol ''P.x'' ''field'' [] ''P'', mkSymbol ''y'' ''variable'' [] []])
            (reached pathUri [AnalyzeFile ''b.mut'',
               AnalyzerReturns ''b.mut''
                 (Some (mkResult ''b.mut'' [mkSymbol ''x'' ''function'' [] []]))]))))
     ''b.mut''
     = Some (fileIndex [mkSymbol ''x'' ''function'' [] []])
   \<and> mkSymbol ''P.x'' ''field'' [] ''P''
       \<notin> set (findSymbolsByName
         (ingest pathUri ''a.mut'' (mkResult ''a.mut'' [mkSymbol ''y'' ''variable'' [] []])
           (ingest pathUri ''a.mut''
              (mkResult ''a.mut'' [mkSymbol ''P.x'' ''field'' [] ''P'', mkSymbol ''y'' ''variable'' [] []])
              (reached pathUri [AnalyzeFile ''b.mut'',
                 AnalyzerReturns ''b.mut''
                   (Some (mkResult ''b.mut'' [mkSymbol ''x'' ''function'' [] []]))])))
         ''x'')"
proof -
  let ?es = "[AnalyzeFile ''b.mut'',
               AnalyzerReturns ''b.mut''
                 (Some (mkResult ''b.mut'' [mkSymbol ''x'' ''function'' [] []]))]"
  let ?R1 = "mkResult ''a.mut'' [mkSymbol ''P.x'' ''field'' [] ''P'', mkSymbol ''y'' ''variable'' [] []]"
  let ?R2 = "mkResult ''a.mut'' [mkSymbol ''y'' ''variable'' [] []]"
  note t = replacement_frame[of pathUri "''a.mut''" ?R2 ?R1 ?es]
  have ne: "''b.mut'' \<noteq> ''a.mut''" by simp
  have old: "map_of (nameIndex (ingest pathUri ''a.mut'' ?R1 (reached pathUri ?es))) ''b.mut''
               = Some (fileIndex [mkSymbol ''x'' ''function'' [] []])"
    by (simp add: eval_defs)
  have frame: "map_of (nameIndex (ingest pathUri ''a.mut'' ?R2 (ingest pathUri ''a.mut'' ?R1 (reached pathUri ?es)))) ''b.mut''
      = map_of (nameIndex (ingest pathUri ''a.mut'' ?R1 (reached pathUri ?es))) ''b.mut''"
    using t[THEN conjunct2, THEN conjunct2, THEN conjunct1, THEN spec, THEN mp, OF ne] .
  have hyp: "mkSymbol ''P.x'' ''field'' [] ''P'' \<in> set (symbols ?R1)
     \<and> mkSymbol ''P.x'' ''field'' [] ''P'' \<notin> set (symbols ?R2)
     \<and> (\<forall>e \<in> set (cache (reached pathUri ?es)). fst e \<noteq> ''a.mut''
           \<longrightarrow> mkSymbol ''P.x'' ''field'' [] ''P'' \<notin> set (symbols (snd e)))"
    by (simp add: eval_defs)
  have gone: "mkSymbol ''P.x'' ''field'' [] ''P''
       \<notin> set (findSymbolsByName (ingest pathUri ''a.mut'' ?R2 (ingest pathUri ''a.mut'' ?R1 (reached pathUri ?es))) ''x'')"
    using t[THEN conjunct2, THEN conjunct2, THEN conjunct2, THEN conjunct2, THEN conjunct2,
            THEN conjunct2, THEN spec, THEN spec, THEN mp, OF hyp] .
  show ?thesis using frame old gone by simp
qed

section \<open>Lookups\<close>

lemma firstDefKind_none:
  "(\<forall>c \<in> set cs. sym_kind c \<notin> defKinds) \<Longrightarrow> firstDefKind cs = None"
  by (induction cs) auto

lemma firstDefKind_index:
  "i < length cs \<Longrightarrow> sym_kind (cs ! i) \<in> defKinds
     \<Longrightarrow> (\<forall>j<i. sym_kind (cs ! j) \<notin> defKinds) \<Longrightarrow> firstDefKind cs = Some (cs ! i)"
proof (induction cs arbitrary: i)
  case Nil
  then show ?case by simp
next
  case (Cons c cs)
  show ?case
  proof (cases i)
    case 0
    then show ?thesis using Cons.prems by simp
  next
    case (Suc k)
    have nc: "sym_kind c \<notin> defKinds" using Cons.prems(3) Suc by auto
    have "\<forall>j<k. sym_kind (cs ! j) \<notin> defKinds"
    proof (intro allI impI)
      fix j assume "j < k"
      then have "Suc j < i" using Suc by simp
      then have "sym_kind ((c # cs) ! Suc j) \<notin> defKinds" using Cons.prems(3) by blast
      then show "sym_kind (cs ! j) \<notin> defKinds" by simp
    qed
    then have "firstDefKind cs = Some (cs ! k)"
      using Cons.IH[of k] Cons.prems Suc by simp
    then show ?thesis using nc Suc by simp
  qed
qed

lemma findDefinition_first_stored:
  "i < length (findSymbolsByName s n)
     \<Longrightarrow> sym_kind (findSymbolsByName s n ! i) \<in> defKinds
     \<Longrightarrow> (\<forall>j<i. sym_kind (findSymbolsByName s n ! j) \<notin> defKinds)
     \<Longrightarrow> findDefinition s n = Some (findSymbolsByName s n ! i)"
  by (auto simp: findDefinition_def Let_def firstDefKind_index)

lemma findDefinition_no_def_kind:
  "findSymbolsByName s n \<noteq> []
     \<Longrightarrow> (\<forall>c \<in> set (findSymbolsByName s n). sym_kind c \<notin> defKinds)
     \<Longrightarrow> findDefinition s n = Some (hd (findSymbolsByName s n))"
  by (simp add: findDefinition_def Let_def firstDefKind_none hd_conv_nth)

lemmas hover_defs = provideHover_def hoverSymbols_def sortByPriority_def priorityValue_def
  priority_def objectMembers_def findDefinition_def defKinds_def unionOfFileIndices_def

text \<open>
  C5 (a defect of the code). findDefinition returns the first candidate of a definition
  kind, or else the first candidate, in the order of the list stored in the global
  index. That order is discovery order only until a hover: the hover provider sorts the
  stored list in place by its own priority. For a file with the field \<open>A.x\<close> and then
  the function \<open>x\<close>, the candidates for \<open>x\<close> in discovery order are the field, the
  function, and findDefinition answers the field. After one hover on \<open>x\<close>, with the
  cache and the per-file indices unchanged, the stored list is the function, the field,
  and findDefinition answers the function, which is not the first definition in
  discovery order. For the parameter \<open>f.x\<close> and then the method signature \<open>I.x\<close>, neither
  of a definition kind, the answer moves from the first candidate, the parameter, to
  the method signature.
\<close>

theorem findDefinition_after_hover:
  "findDefinition
     (reached uriFile
        [AnalyzeFile ''a.mut'',
         AnalyzerReturns ''a.mut''
           (Some (mkResult ''a.mut''
                    [mkSymbol ''A.x'' ''field'' [] ''A'', mkSymbol ''x'' ''function'' [] []]))])
     ''x''
     = Some (mkSymbol ''A.x'' ''field'' [] ''A'')
   \<and> unionOfFileIndices
        (nameIndex
          (reached uriFile
            [AnalyzeFile ''a.mut'',
             AnalyzerReturns ''a.mut''
               (Some (mkResult ''a.mut''
                        [mkSymbol ''A.x'' ''field'' [] ''A'', mkSymbol ''x'' ''function'' [] []])),
             Hover ''a.mut'' ''x'' None []]))
        ''x''
       = [mkSymbol ''A.x'' ''field'' [] ''A'', mkSymbol ''x'' ''function'' [] []]
   \<and> findSymbolsByName
        (reached uriFile
          [AnalyzeFile ''a.mut'',
           AnalyzerReturns ''a.mut''
             (Some (mkResult ''a.mut''
                      [mkSymbol ''A.x'' ''field'' [] ''A'', mkSymbol ''x'' ''function'' [] []])),
           Hover ''a.mut'' ''x'' None []])
        ''x''
       = [mkSymbol ''x'' ''function'' [] [], mkSymbol ''A.x'' ''field'' [] ''A'']
   \<and> findDefinition
        (reached uriFile
          [AnalyzeFile ''a.mut'',
           AnalyzerReturns ''a.mut''
             (Some (mkResult ''a.mut''
                      [mkSymbol ''A.x'' ''field'' [] ''A'', mkSymbol ''x'' ''function'' [] []])),
           Hover ''a.mut'' ''x'' None []])
        ''x''
       = Some (mkSymbol ''x'' ''function'' [] [])
   \<and> findDefinition
        (reached uriFile
          [AnalyzeFile ''a.mut'',
           AnalyzerReturns ''a.mut''
             (Some (mkResult ''a.mut''
                      [mkSymbol ''f.x'' ''parameter'' [] ''f'',
                       mkSymbol ''I.x'' ''method_sig'' [] ''I'']))])
        ''x''
       = Some (mkSymbol ''f.x'' ''parameter'' [] ''f'')
   \<and> findDefinition
        (reached uriFile
          [AnalyzeFile ''a.mut'',
           AnalyzerReturns ''a.mut''
             (Some (mkResult ''a.mut''
                      [mkSymbol ''f.x'' ''parameter'' [] ''f'',
                       mkSymbol ''I.x'' ''method_sig'' [] ''I''])),
           Hover ''a.mut'' ''x'' None []])
        ''x''
       = Some (mkSymbol ''I.x'' ''method_sig'' [] ''I'')"
  by (simp add: hover_defs eval_defs)

lemma scan_none:
  "(\<forall>c \<in> set cs. \<not> typedVariable v c) \<Longrightarrow> scanVariableType v cs = None"
  by (induction cs) (auto simp: typedVariable_def)

lemma scan_index:
  "i < length cs \<Longrightarrow> typedVariable v (cs ! i)
     \<Longrightarrow> (\<forall>j<i. \<not> typedVariable v (cs ! j))
     \<Longrightarrow> scanVariableType v cs = Some (sym_detail (cs ! i))"
proof (induction cs arbitrary: i)
  case Nil
  then show ?case by simp
next
  case (Cons c cs)
  show ?case
  proof (cases i)
    case 0
    then show ?thesis using Cons.prems by (auto simp: typedVariable_def)
  next
    case (Suc k)
    have nc: "\<not> typedVariable v c" using Cons.prems(3) Suc by auto
    have "\<forall>j<k. \<not> typedVariable v (cs ! j)"
    proof (intro allI impI)
      fix j assume "j < k"
      then have "Suc j < i" using Suc by simp
      then have "\<not> typedVariable v ((c # cs) ! Suc j)" using Cons.prems(3) by blast
      then show "\<not> typedVariable v (cs ! j)" by simp
    qed
    then have "scanVariableType v cs = Some (sym_detail (cs ! k))"
      using Cons.IH[of k] Cons.prems Suc by simp
    then show ?thesis using nc Suc by (auto simp: typedVariable_def)
  qed
qed

lemma scan_nonempty: "scanVariableType v cs = Some t \<Longrightarrow> t \<noteq> []"
  by (induction cs) (auto split: if_splits)

lemma findVariableType_nonempty: "findVariableType s f v = Some t \<Longrightarrow> t \<noteq> []"
  by (auto simp: findVariableType_def scan_nonempty split: option.splits)

lemma simpleName_suffix:
  "includesDot nm \<Longrightarrow> \<exists>pre. nm = pre @ ''.'' @ simpleName nm"
  using split_last_suffix[of "CHR ''.''" nm]
  by (simp add: includesDot_def simpleName_def splitPop_def)

text \<open>
  C9. findVariableType returns null for a file with no cached result. Otherwise it returns
  the detail of the first symbol, in the order of the file's symbol sequence, that is a
  typed variable for the name: its kind is variable, constant, parameter or field, its
  simple name is the name and its detail is not empty. It returns null when the file has
  no such symbol. The simple name has no dot and is the part of the name after its last
  dot (the name itself when it has none). Neither parent nor position is consulted: of a
  parameter \<open>f.v\<close> and a later variable \<open>g.v\<close> the parameter's type is returned for \<open>v\<close>.
\<close>

theorem findVariableType_first_match:
  "(getResult s f = None \<longrightarrow> findVariableType s f v = None)
   \<and> (\<forall>r i. getResult s f = Some r \<and> i < length (symbols r)
          \<and> typedVariable v (symbols r ! i)
          \<and> (\<forall>j<i. \<not> typedVariable v (symbols r ! j))
        \<longrightarrow> findVariableType s f v = Some (sym_detail (symbols r ! i)))
   \<and> (\<forall>r. getResult s f = Some r \<and> (\<forall>c \<in> set (symbols r). \<not> typedVariable v c)
        \<longrightarrow> findVariableType s f v = None)
   \<and> (\<forall>c. typedVariable v c
          = ((sym_kind c = ''variable'' \<or> sym_kind c = ''constant''
               \<or> sym_kind c = ''parameter'' \<or> sym_kind c = ''field'')
             \<and> simpleName (sym_name c) = v \<and> sym_detail c \<noteq> []))
   \<and> (\<forall>nm. \<not> includesDot (simpleName nm)
          \<and> (includesDot nm \<longrightarrow> (\<exists>pre. nm = pre @ ''.'' @ simpleName nm))
          \<and> (\<not> includesDot nm \<longrightarrow> simpleName nm = nm))
   \<and> findVariableType
        (ingest uriFile ''a.mut''
           (mkResult ''a.mut''
              [mkSymbol ''f.v'' ''parameter'' ''i32'' ''f'', mkSymbol ''g.v'' ''variable'' ''str'' ''g''])
           newSymbolCache) ''a.mut'' ''v''
       = Some ''i32''"
proof -
  have a: "getResult s f = None \<longrightarrow> findVariableType s f v = None"
    by (simp add: getResult_def findVariableType_def)
  have b: "\<forall>r i. getResult s f = Some r \<and> i < length (symbols r)
          \<and> typedVariable v (symbols r ! i)
          \<and> (\<forall>j<i. \<not> typedVariable v (symbols r ! j))
        \<longrightarrow> findVariableType s f v = Some (sym_detail (symbols r ! i))"
    by (simp add: getResult_def findVariableType_def scan_index)
  have c: "\<forall>r. getResult s f = Some r \<and> (\<forall>c \<in> set (symbols r). \<not> typedVariable v c)
        \<longrightarrow> findVariableType s f v = None"
    by (simp add: getResult_def findVariableType_def scan_none)
  have d: "\<forall>c. typedVariable v c
          = ((sym_kind c = ''variable'' \<or> sym_kind c = ''constant''
               \<or> sym_kind c = ''parameter'' \<or> sym_kind c = ''field'')
             \<and> simpleName (sym_name c) = v \<and> sym_detail c \<noteq> [])"
    by (auto simp: typedVariable_def)
  have e: "\<forall>nm. \<not> includesDot (simpleName nm)
          \<and> (includesDot nm \<longrightarrow> (\<exists>pre. nm = pre @ ''.'' @ simpleName nm))
          \<and> (\<not> includesDot nm \<longrightarrow> simpleName nm = nm)"
  proof (intro allI conjI impI)
    fix nm
    show "\<not> includesDot (simpleName nm)" by (rule simpleName_no_dot)
    show "\<exists>pre. nm = pre @ ''.'' @ simpleName nm" if "includesDot nm"
      using that by (rule simpleName_suffix)
    show "simpleName nm = nm" if "\<not> includesDot nm"
      using that by (simp add: simpleName_def)
  qed
  have g: "findVariableType
        (ingest uriFile ''a.mut''
           (mkResult ''a.mut''
              [mkSymbol ''f.v'' ''parameter'' ''i32'' ''f'', mkSymbol ''g.v'' ''variable'' ''str'' ''g''])
           newSymbolCache) ''a.mut'' ''v''
       = Some ''i32''"
    by (simp add: findVariableType_def eval_defs)
  show ?thesis by (intro conjI) (rule a b c d e g)+
qed

theorem findVariableType_first_match_witness:
  "findVariableType newSymbolCache ''a.mut'' ''v'' = None
   \<and> findVariableType
        (ingest pathUri ''a.mut''
           (mkResult ''a.mut''
              [mkSymbol ''f.v'' ''parameter'' ''i32'' ''f'', mkSymbol ''g.v'' ''variable'' ''str'' ''g''])
           newSymbolCache) ''a.mut'' ''v''
       = Some ''i32''
   \<and> findVariableType
        (ingest pathUri ''a.mut''
           (mkResult ''a.mut''
              [mkSymbol ''f.v'' ''parameter'' ''i32'' ''f'', mkSymbol ''g.v'' ''variable'' ''str'' ''g''])
           newSymbolCache) ''a.mut'' ''w''
       = None
   \<and> (\<exists>pre. ''f.v'' = pre @ ''.'' @ simpleName ''f.v'')
   \<and> simpleName ''v'' = ''v''"
proof -
  let ?R = "mkResult ''a.mut''
              [mkSymbol ''f.v'' ''parameter'' ''i32'' ''f'', mkSymbol ''g.v'' ''variable'' ''str'' ''g'']"
  let ?s = "ingest pathUri ''a.mut'' ?R newSymbolCache"
  have h1: "getResult newSymbolCache ''a.mut'' = None"
    by (simp add: getResult_def newSymbolCache_def)
  have c1: "findVariableType newSymbolCache ''a.mut'' ''v'' = None"
    using findVariableType_first_match[of newSymbolCache "''a.mut''" "''v''",
            THEN conjunct1, THEN mp, OF h1] .
  have g: "getResult ?s ''a.mut'' = Some ?R"
    by (simp add: getResult_def eval_defs)
  have h2: "getResult ?s ''a.mut'' = Some ?R \<and> 0 < length (symbols ?R)
          \<and> typedVariable ''v'' (symbols ?R ! 0)
          \<and> (\<forall>j<0. \<not> typedVariable ''v'' (symbols ?R ! j))"
    using g by (simp add: typedVariable_def eval_defs)
  have c2: "findVariableType ?s ''a.mut'' ''v'' = Some (sym_detail (symbols ?R ! 0))"
    using findVariableType_first_match[of ?s "''a.mut''" "''v''",
            THEN conjunct2, THEN conjunct1, THEN spec, THEN spec, THEN mp, OF h2] .
  have h3: "getResult ?s ''a.mut'' = Some ?R
          \<and> (\<forall>c \<in> set (symbols ?R). \<not> typedVariable ''w'' c)"
    using g by (simp add: typedVariable_def eval_defs)
  have c3: "findVariableType ?s ''a.mut'' ''w'' = None"
    using findVariableType_first_match[of ?s "''a.mut''" "''w''",
            THEN conjunct2, THEN conjunct2, THEN conjunct1, THEN spec, THEN mp, OF h3] .
  note nm = findVariableType_first_match[of ?s "''a.mut''" "''w''",
            THEN conjunct2, THEN conjunct2, THEN conjunct2, THEN conjunct2, THEN conjunct1]
  have h4: "includesDot ''f.v''" by (simp add: includesDot_def)
  have c4: "\<exists>pre. ''f.v'' = pre @ ''.'' @ simpleName ''f.v''"
    using nm[THEN spec, THEN conjunct2, THEN conjunct1, THEN mp, OF h4] .
  have h5: "\<not> includesDot ''v''" by (simp add: includesDot_def)
  have c5: "simpleName ''v'' = ''v''"
    using nm[THEN spec, THEN conjunct2, THEN conjunct2, THEN mp, OF h5] .
  have "sym_detail (symbols ?R ! 0) = ''i32''" by (simp add: eval_defs)
  then show ?thesis using c1 c2 c3 c4 c5 by simp
qed

section \<open>Dotted resolution and completion\<close>



lemma membersOfResult_filter:
  "membersOfResult t e acc = acc @ filter (\<lambda>m. sym_parent m = t) (symbols (snd e))"
proof -
  have "fold (\<lambda>symb acc. if sym_parent symb = t then acc @ [symb] else acc) xs acc
          = acc @ filter (\<lambda>m. sym_parent m = t) xs" for xs acc
    by (induction xs arbitrary: acc) auto
  then show ?thesis by (simp add: membersOfResult_def)
qed

lemma fold_membersOfResult:
  "fold (membersOfResult t) cs acc
     = acc @ concat (map (\<lambda>e. filter (\<lambda>m. sym_parent m = t) (symbols (snd e))) cs)"
  by (induction cs arbitrary: acc) (auto simp: membersOfResult_filter)

lemma findMembers_concat:
  "findMembers s t = concat (map (\<lambda>e. filter (\<lambda>m. sym_parent m = t) (symbols (snd e))) (cache s))"
  by (simp add: findMembers_def fold_membersOfResult)

text \<open>
  C10. In dot completion after the identifier \<open>v\<close>, the resolved type is the type found
  for \<open>v\<close> in the current file, or \<open>v\<close> itself. When the resolved type has a member, the
  items are those of its members whose kind is not parameter, in order; they are none
  when all members are parameters. When the resolved type has no member, the items are
  those of all members of \<open>v\<close>, parameters included. The members of a type are the symbols
  of the cached results whose parent is the type, in cache order. For a variable \<open>f\<close> of
  type \<open>Fn\<close> with no members and a parameter \<open>f.a\<close> of parent \<open>f\<close>, the parameter is offered.
\<close>

theorem dot_completion_members:
  "(findMembers s (resolvedType s fp v) \<noteq> [] \<longrightarrow>
      provideDotCompletion s fp (Some v)
        = map symbolToCompletionItem
            (filter (\<lambda>m. sym_kind m \<noteq> ''parameter'') (findMembers s (resolvedType s fp v))))
   \<and> (findMembers s (resolvedType s fp v) \<noteq> []
        \<and> (\<forall>m \<in> set (findMembers s (resolvedType s fp v)). sym_kind m = ''parameter'')
      \<longrightarrow> provideDotCompletion s fp (Some v) = [])
   \<and> (findMembers s (resolvedType s fp v) = [] \<longrightarrow>
        provideDotCompletion s fp (Some v) = map symbolToCompletionItem (findMembers s v))
   \<and> (\<forall>t. findMembers s t
          = concat (map (\<lambda>e. filter (\<lambda>m. sym_parent m = t) (symbols (snd e))) (cache s)))
   \<and> provideDotCompletion
        (ingest uriFile ''a.mut''
           (mkResult ''a.mut''
              [mkSymbol ''f'' ''variable'' ''Fn'' [], mkSymbol ''f.a'' ''parameter'' ''i32'' ''f''])
           newSymbolCache) ''a.mut'' (Some ''f'')
       = [symbolToCompletionItem (mkSymbol ''f.a'' ''parameter'' ''i32'' ''f'')]"
proof -
  let ?T = "resolvedType s fp v"
  have ty: "(case findVariableType s fp v of None \<Rightarrow> v | Some t \<Rightarrow> if t = [] then v else t) = ?T"
    using findVariableType_nonempty[of s fp v]
    by (auto simp: resolvedType_def split: option.splits)
  have a: "findMembers s ?T \<noteq> [] \<longrightarrow>
      provideDotCompletion s fp (Some v)
        = map symbolToCompletionItem
            (filter (\<lambda>m. sym_kind m \<noteq> ''parameter'') (findMembers s ?T))"
    by (simp add: provideDotCompletion_def Let_def ty)
  have b: "findMembers s ?T \<noteq> []
        \<and> (\<forall>m \<in> set (findMembers s ?T). sym_kind m = ''parameter'')
      \<longrightarrow> provideDotCompletion s fp (Some v) = []"
    using a by (auto simp: filter_empty_conv)
  have c: "findMembers s ?T = [] \<longrightarrow>
        provideDotCompletion s fp (Some v) = map symbolToCompletionItem (findMembers s v)"
    by (simp add: provideDotCompletion_def Let_def ty)
  have d: "\<forall>t. findMembers s t
          = concat (map (\<lambda>e. filter (\<lambda>m. sym_parent m = t) (symbols (snd e))) (cache s))"
    by (simp add: findMembers_concat)
  have e: "provideDotCompletion
        (ingest uriFile ''a.mut''
           (mkResult ''a.mut''
              [mkSymbol ''f'' ''variable'' ''Fn'' [], mkSymbol ''f.a'' ''parameter'' ''i32'' ''f''])
           newSymbolCache) ''a.mut'' (Some ''f'')
       = [symbolToCompletionItem (mkSymbol ''f.a'' ''parameter'' ''i32'' ''f'')]"
    by (simp add: provideDotCompletion_def findVariableType_def findMembers_def
          membersOfResult_def eval_defs)
  show ?thesis by (intro conjI) (rule a b c d e)+
qed

theorem dot_completion_members_witness:
  "provideDotCompletion
        (ingest pathUri ''a.mut''
           (mkResult ''a.mut''
              [mkSymbol ''p'' ''variable'' ''Point'' [],
               mkSymbol ''Point.x'' ''field'' ''i32'' ''Point'',
               mkSymbol ''Point.n'' ''parameter'' ''i32'' ''Point''])
           newSymbolCache) ''a.mut'' (Some ''p'')
       = [symbolToCompletionItem (mkSymbol ''Point.x'' ''field'' ''i32'' ''Point'')]
   \<and> provideDotCompletion
        (ingest pathUri ''a.mut''
           (mkResult ''a.mut''
              [mkSymbol ''g'' ''variable'' ''G'' [], mkSymbol ''G.a'' ''parameter'' ''i32'' ''G''])
           newSymbolCache) ''a.mut'' (Some ''g'')
       = []
   \<and> provideDotCompletion
        (ingest pathUri ''a.mut''
           (mkResult ''a.mut''
              [mkSymbol ''f'' ''variable'' ''Fn'' [], mkSymbol ''f.a'' ''parameter'' ''i32'' ''f''])
           newSymbolCache) ''a.mut'' (Some ''f'')
       = [symbolToCompletionItem (mkSymbol ''f.a'' ''parameter'' ''i32'' ''f'')]"
proof -
  let ?s1 = "ingest pathUri ''a.mut''
           (mkResult ''a.mut''
              [mkSymbol ''p'' ''variable'' ''Point'' [],
               mkSymbol ''Point.x'' ''field'' ''i32'' ''Point'',
               mkSymbol ''Point.n'' ''parameter'' ''i32'' ''Point''])
           newSymbolCache"
  let ?s2 = "ingest pathUri ''a.mut''
           (mkResult ''a.mut''
              [mkSymbol ''g'' ''variable'' ''G'' [], mkSymbol ''G.a'' ''parameter'' ''i32'' ''G''])
           newSymbolCache"
  let ?s3 = "ingest pathUri ''a.mut''
           (mkResult ''a.mut''
              [mkSymbol ''f'' ''variable'' ''Fn'' [], mkSymbol ''f.a'' ''parameter'' ''i32'' ''f''])
           newSymbolCache"
  have m1: "findMembers ?s1 (resolvedType ?s1 ''a.mut'' ''p'')
              = [mkSymbol ''Point.x'' ''field'' ''i32'' ''Point'',
                 mkSymbol ''Point.n'' ''parameter'' ''i32'' ''Point'']"
    by (simp add: resolvedType_def findVariableType_def findMembers_def membersOfResult_def
          eval_defs)
  have h1: "findMembers ?s1 (resolvedType ?s1 ''a.mut'' ''p'') \<noteq> []"
    unfolding m1 by simp
  have c1: "provideDotCompletion ?s1 ''a.mut'' (Some ''p'')
        = map symbolToCompletionItem
            (filter (\<lambda>m. sym_kind m \<noteq> ''parameter'')
               (findMembers ?s1 (resolvedType ?s1 ''a.mut'' ''p'')))"
    using dot_completion_members[of ?s1 "''a.mut''" "''p''", THEN conjunct1, THEN mp, OF h1] .
  have m2: "findMembers ?s2 (resolvedType ?s2 ''a.mut'' ''g'')
              = [mkSymbol ''G.a'' ''parameter'' ''i32'' ''G'']"
    by (simp add: resolvedType_def findVariableType_def findMembers_def membersOfResult_def
          eval_defs)
  have h2: "findMembers ?s2 (resolvedType ?s2 ''a.mut'' ''g'') \<noteq> []
        \<and> (\<forall>m \<in> set (findMembers ?s2 (resolvedType ?s2 ''a.mut'' ''g'')).
              sym_kind m = ''parameter'')"
    unfolding m2 by (simp add: mkSymbol_def)
  have c2: "provideDotCompletion ?s2 ''a.mut'' (Some ''g'') = []"
    using dot_completion_members[of ?s2 "''a.mut''" "''g''", THEN conjunct2, THEN conjunct1,
            THEN mp, OF h2] .
  have h3: "findMembers ?s3 (resolvedType ?s3 ''a.mut'' ''f'') = []"
    by (simp add: resolvedType_def findVariableType_def findMembers_def membersOfResult_def
          eval_defs)
  have m3: "findMembers ?s3 ''f'' = [mkSymbol ''f.a'' ''parameter'' ''i32'' ''f'']"
    by (simp add: findMembers_def membersOfResult_def eval_defs)
  have c3: "provideDotCompletion ?s3 ''a.mut'' (Some ''f'')
              = map symbolToCompletionItem (findMembers ?s3 ''f'')"
    using dot_completion_members[of ?s3 "''a.mut''" "''f''", THEN conjunct2, THEN conjunct2,
            THEN conjunct1, THEN mp, OF h3] .
  have f1: "filter (\<lambda>m. sym_kind m \<noteq> ''parameter'')
               [mkSymbol ''Point.x'' ''field'' ''i32'' ''Point'',
                mkSymbol ''Point.n'' ''parameter'' ''i32'' ''Point'']
             = [mkSymbol ''Point.x'' ''field'' ''i32'' ''Point'']"
    by (simp add: mkSymbol_def)
  show ?thesis using c1 c2 c3 unfolding m1 m3 f1 by simp
qed

section \<open>Requests under the event loop\<close>

lemma run_append: "run uriFile (es @ es') w = run uriFile es' (run uriFile es w)"
  by (simp add: run_def)

lemma run_Cons: "run uriFile (e # es) w = run uriFile es (fire uriFile e w)"
  by (simp add: run_def)

lemma run_Nil: "run uriFile [] w = w"
  by (simp add: run_def)

lemma clearAll_analyzing: "analyzing (clearAll s) = analyzing s"
  by (simp add: clearAll_def)

lemma resume_analyzing: "analyzing (snd (analyzeFile_resume uriFile f r s)) = analyzing s - {f}"
  by (cases r) (simp_all add: analyzeFile_resume_def Let_def ingest_fields)

lemma fire_request_in_flight:
  "f \<in> analyzing (st w) \<Longrightarrow> fire uriFile (AnalyzeFile f) w = w"
  by (simp add: analyzeFile_begin_def)

lemma fire_request_idle:
  "f \<notin> analyzing (st w) \<Longrightarrow>
   fire uriFile (AnalyzeFile f) w
     = w\<lparr>st := (st w)\<lparr>analyzing := insert f (analyzing (st w))\<rparr>,
         inFlight := inFlight w @ [f], invocations := invocations w @ [f]\<rparr>"
  by (simp add: analyzeFile_begin_def)

lemma wellTracked_fire: "wellTracked w \<Longrightarrow> wellTracked (fire uriFile e w)"
proof (cases e)
  case (AnalyzeFile f)
  assume wt: "wellTracked w"
  show ?thesis
  proof (cases "f \<in> analyzing (st w)")
    case True
    then show ?thesis using wt AnalyzeFile by (simp add: fire_request_in_flight del: fire.simps)
  next
    case False
    then show ?thesis using wt AnalyzeFile
      by (auto simp: fire_request_idle wellTracked_def simp del: fire.simps)
  qed
next
  case (AnalyzerReturns f r)
  assume wt: "wellTracked w"
  then show ?thesis using AnalyzerReturns
    by (auto simp: wellTracked_def resume_analyzing)
next
  case (ClearFile f)
  assume "wellTracked w"
  then show ?thesis using ClearFile by (simp add: wellTracked_def clearFile_fields)
next
  case ClearAll
  assume "wellTracked w"
  then show ?thesis using ClearAll by (simp add: wellTracked_def clearAll_analyzing)
next
  case (Hover fp word dm eo)
  assume "wellTracked w"
  then show ?thesis using Hover by (simp add: wellTracked_def provideHover_fields)
qed

lemma wellTracked_run: "wellTracked w \<Longrightarrow> wellTracked (run uriFile es w)"
  by (induction es arbitrary: w) (simp_all add: run_Nil run_Cons wellTracked_fire)

lemma wellTracked_new: "wellTracked newWorld"
  by (simp add: wellTracked_def newWorld_def newSymbolCache_def)

lemma fire_other_keeps:
  assumes "wellTracked w" "f \<in> set (inFlight w)" "\<forall>r. e \<noteq> AnalyzerReturns f r"
  shows "count_list (invocations (fire uriFile e w)) f = count_list (invocations w) f
         \<and> f \<in> set (inFlight (fire uriFile e w))"
proof (cases e)
  case (AnalyzeFile g)
  show ?thesis
  proof (cases "g \<in> analyzing (st w)")
    case True
    then show ?thesis using assms AnalyzeFile by (simp add: fire_request_in_flight del: fire.simps)
  next
    case False
    then have "g \<noteq> f" using assms by (auto simp: wellTracked_def)
    then show ?thesis using assms False AnalyzeFile by (simp add: fire_request_idle del: fire.simps)
  qed
next
  case (AnalyzerReturns g r)
  then have "g \<noteq> f" using assms by auto
  then show ?thesis using assms AnalyzerReturns by auto
next
  case (ClearFile g)
  then show ?thesis using assms by simp
next
  case ClearAll
  then show ?thesis using assms by simp
next
  case (Hover fp word dm eo)
  then show ?thesis using assms by simp
qed

lemma run_other_keeps:
  "wellTracked w \<Longrightarrow> f \<in> set (inFlight w)
     \<Longrightarrow> (\<forall>e \<in> set es. \<forall>r. e \<noteq> AnalyzerReturns f r)
     \<Longrightarrow> count_list (invocations (run uriFile es w)) f = count_list (invocations w) f
         \<and> f \<in> set (inFlight (run uriFile es w))"
proof (induction es arbitrary: w)
  case Nil
  then show ?case by (simp add: run_Nil)
next
  case (Cons e es)
  have e: "\<forall>r. e \<noteq> AnalyzerReturns f r" using Cons.prems(3) by simp
  have k: "count_list (invocations (fire uriFile e w)) f = count_list (invocations w) f
         \<and> f \<in> set (inFlight (fire uriFile e w))"
    using fire_other_keeps[OF Cons.prems(1) Cons.prems(2) e] .
  have "count_list (invocations (run uriFile es (fire uriFile e w))) f = count_list (invocations (fire uriFile e w)) f
         \<and> f \<in> set (inFlight (run uriFile es (fire uriFile e w)))"
    using Cons.IH[of "fire uriFile e w"] wellTracked_fire[OF Cons.prems(1)] k Cons.prems(3) by simp
  then show ?case using k by (simp add: run_Cons)
qed

lemma distinct_count_le: "distinct xs \<Longrightarrow> count_list xs x \<le> 1"
  by (induction xs) auto

text \<open>
  C4. In every state the cache reaches, no path has more than one analyzer invocation
  that has not answered, and the paths with one are those in \<open>analyzing\<close>. A call of
  analyzeFile for a path whose analysis is running starts no invocation and changes
  nothing; it is answered with the cached result of the path, or null when there is
  none. A call for a path with no running analysis starts one invocation, and a second
  call right after it starts none. More generally, after such a call and any further
  events other than the analyzer's answer for that path, exactly one more invocation
  for the path has been started.
\<close>

theorem at_most_one_in_flight:
  "count_list (inFlight (run uriFile es newWorld)) f \<le> 1
   \<and> set (inFlight (run uriFile es newWorld)) = analyzing (reached uriFile es)
   \<and> (f \<in> set (inFlight (run uriFile es newWorld)) \<longrightarrow>
        analyzeFile_begin f (reached uriFile es) = (Answered (getResult (reached uriFile es) f), reached uriFile es)
        \<and> fire uriFile (AnalyzeFile f) (run uriFile es newWorld) = run uriFile es newWorld)
   \<and> (f \<notin> set (inFlight (run uriFile es newWorld)) \<longrightarrow>
        fst (analyzeFile_begin f (reached uriFile es)) = Invoked
        \<and> invocations (run uriFile (es @ [AnalyzeFile f, AnalyzeFile f]) newWorld)
            = invocations (run uriFile es newWorld) @ [f]
        \<and> inFlight (run uriFile (es @ [AnalyzeFile f, AnalyzeFile f]) newWorld)
            = inFlight (run uriFile es newWorld) @ [f])
   \<and> (\<forall>es'. f \<notin> set (inFlight (run uriFile es newWorld))
          \<and> (\<forall>e \<in> set es'. \<forall>r. e \<noteq> AnalyzerReturns f r)
        \<longrightarrow> count_list (invocations (run uriFile (es @ AnalyzeFile f # es') newWorld)) f
              = count_list (invocations (run uriFile es newWorld)) f + 1)"
proof -
  let ?w = "run uriFile es newWorld"
  have wt: "wellTracked ?w" using wellTracked_new by (rule wellTracked_run)
  have st: "st ?w = reached uriFile es" by (simp add: reached_def)
  have a: "count_list (inFlight ?w) f \<le> 1"
    using wt distinct_count_le[of "inFlight ?w" f] by (simp add: wellTracked_def)
  have b: "set (inFlight ?w) = analyzing (reached uriFile es)"
    using wt st by (simp add: wellTracked_def)
  have c: "f \<in> set (inFlight ?w) \<longrightarrow>
        analyzeFile_begin f (reached uriFile es) = (Answered (getResult (reached uriFile es) f), reached uriFile es)
        \<and> fire uriFile (AnalyzeFile f) ?w = ?w"
    using b st by (simp add: analyzeFile_begin_def getResult_def)
  have d: "f \<notin> set (inFlight ?w) \<longrightarrow>
        fst (analyzeFile_begin f (reached uriFile es)) = Invoked
        \<and> invocations (run uriFile (es @ [AnalyzeFile f, AnalyzeFile f]) newWorld)
            = invocations ?w @ [f]
        \<and> inFlight (run uriFile (es @ [AnalyzeFile f, AnalyzeFile f]) newWorld)
            = inFlight ?w @ [f]"
    using b st by (simp add: run_append run_Cons run_Nil analyzeFile_begin_def)
  have e: "\<forall>es'. f \<notin> set (inFlight ?w)
          \<and> (\<forall>e \<in> set es'. \<forall>r. e \<noteq> AnalyzerReturns f r)
        \<longrightarrow> count_list (invocations (run uriFile (es @ AnalyzeFile f # es') newWorld)) f
              = count_list (invocations ?w) f + 1"
  proof (intro allI impI)
    fix es'
    assume h: "f \<notin> set (inFlight ?w) \<and> (\<forall>e \<in> set es'. \<forall>r. e \<noteq> AnalyzerReturns f r)"
    let ?w1 = "fire uriFile (AnalyzeFile f) ?w"
    have idle: "f \<notin> analyzing (st ?w)" using h b st by simp
    have w1: "wellTracked ?w1" using wt by (rule wellTracked_fire)
    have i1: "f \<in> set (inFlight ?w1)" using idle by (simp add: fire_request_idle del: fire.simps)
    have n1: "count_list (invocations ?w1) f = count_list (invocations ?w) f + 1"
      using idle by (simp add: fire_request_idle del: fire.simps)
    have "count_list (invocations (run uriFile es' ?w1)) f = count_list (invocations ?w1) f"
      using run_other_keeps[OF w1 i1] h by simp
    then show "count_list (invocations (run uriFile (es @ AnalyzeFile f # es') newWorld)) f
              = count_list (invocations ?w) f + 1"
      using n1 by (simp add: run_append run_Cons)
  qed
  show ?thesis by (intro conjI) (rule a b c d e)+
qed

theorem at_most_one_in_flight_witness:
  "analyzeFile_begin ''a.mut'' (reached pathUri [AnalyzeFile ''a.mut''])
     = (Answered None, reached pathUri [AnalyzeFile ''a.mut''])
   \<and> fire pathUri (AnalyzeFile ''a.mut'') (run pathUri [AnalyzeFile ''a.mut''] newWorld)
       = run pathUri [AnalyzeFile ''a.mut''] newWorld
   \<and> invocations (run pathUri [AnalyzeFile ''a.mut'', AnalyzeFile ''a.mut''] newWorld) = [''a.mut'']
   \<and> count_list
        (invocations
           (run pathUri [AnalyzeFile ''a.mut'', AnalyzeFile ''a.mut'', AnalyzeFile ''b.mut'',
                 AnalyzerReturns ''b.mut'' None, ClearFile ''a.mut'', AnalyzeFile ''a.mut'']
              newWorld))
        ''a.mut'' = 1"
proof -
  let ?es' = "[AnalyzeFile ''a.mut'', AnalyzeFile ''b.mut'',
               AnalyzerReturns ''b.mut'' None, ClearFile ''a.mut'', AnalyzeFile ''a.mut'']"
  note busy = at_most_one_in_flight[of pathUri "[AnalyzeFile ''a.mut'']" "''a.mut''"]
  note idle = at_most_one_in_flight[of pathUri "[]" "''a.mut''"]
  have h1: "''a.mut'' \<in> set (inFlight (run pathUri [AnalyzeFile ''a.mut''] newWorld))"
    by (simp add: eval_defs)
  have c1: "analyzeFile_begin ''a.mut'' (reached pathUri [AnalyzeFile ''a.mut''])
        = (Answered (getResult (reached pathUri [AnalyzeFile ''a.mut'']) ''a.mut''),
           reached pathUri [AnalyzeFile ''a.mut''])
     \<and> fire pathUri (AnalyzeFile ''a.mut'') (run pathUri [AnalyzeFile ''a.mut''] newWorld)
        = run pathUri [AnalyzeFile ''a.mut''] newWorld"
    using busy[THEN conjunct2, THEN conjunct2, THEN conjunct1, THEN mp, OF h1] .
  have g: "getResult (reached pathUri [AnalyzeFile ''a.mut'']) ''a.mut'' = None"
    by (simp add: getResult_def eval_defs)
  have h2: "''a.mut'' \<notin> set (inFlight (run pathUri [] newWorld))"
    by (simp add: eval_defs)
  have c2: "invocations (run pathUri ([] @ [AnalyzeFile ''a.mut'', AnalyzeFile ''a.mut'']) newWorld)
            = invocations (run pathUri [] newWorld) @ [''a.mut'']"
    using idle[THEN conjunct2, THEN conjunct2, THEN conjunct2, THEN conjunct1, THEN mp, OF h2]
    by simp
  have h3: "''a.mut'' \<notin> set (inFlight (run pathUri [] newWorld))
          \<and> (\<forall>e \<in> set ?es'. \<forall>r. e \<noteq> AnalyzerReturns ''a.mut'' r)"
    using h2 by simp
  have c3: "count_list (invocations (run pathUri ([] @ AnalyzeFile ''a.mut'' # ?es') newWorld)) ''a.mut''
              = count_list (invocations (run pathUri [] newWorld)) ''a.mut'' + 1"
    using idle[THEN conjunct2, THEN conjunct2, THEN conjunct2, THEN conjunct2, THEN spec,
            THEN mp, OF h3] .
  have i0: "invocations (run pathUri [] newWorld) = []"
    by (simp add: eval_defs)
  show ?thesis using c1 c2 c3 g i0 by simp
qed

text \<open>
  C7. When the analyzer answers null, analyzeFile returns null and leaves the cached
  results, the per-file indices, the global index and the published diagnostics as
  they are. So a whole request that ends in null, started in any state of the world,
  changes none of the four; started for a path with no running analysis it gives back
  the very state it started in.
\<close>

theorem failed_analysis_keeps_state:
  "fst (analyzeFile_resume uriFile f None s) = None
   \<and> cache (snd (analyzeFile_resume uriFile f None s)) = cache s
   \<and> nameIndex (snd (analyzeFile_resume uriFile f None s)) = nameIndex s
   \<and> globalSymbols (snd (analyzeFile_resume uriFile f None s)) = globalSymbols s
   \<and> diagnosticCollection (snd (analyzeFile_resume uriFile f None s)) = diagnosticCollection s
   \<and> cache (st (run uriFile [AnalyzeFile f, AnalyzerReturns f None] w)) = cache (st w)
   \<and> nameIndex (st (run uriFile [AnalyzeFile f, AnalyzerReturns f None] w)) = nameIndex (st w)
   \<and> globalSymbols (st (run uriFile [AnalyzeFile f, AnalyzerReturns f None] w)) = globalSymbols (st w)
   \<and> diagnosticCollection (st (run uriFile [AnalyzeFile f, AnalyzerReturns f None] w))
       = diagnosticCollection (st w)
   \<and> (f \<notin> analyzing s \<longrightarrow>
        snd (analyzeFile_resume uriFile f None (snd (analyzeFile_begin f s))) = s)"
  by (simp add: analyzeFile_resume_def analyzeFile_begin_def run_def Let_def)

theorem failed_analysis_keeps_state_witness:
  "snd (analyzeFile_resume pathUri ''a.mut'' None
          (snd (analyzeFile_begin ''a.mut''
                  (ingest pathUri ''a.mut''
                     (mkResult ''a.mut'' [mkSymbol ''x'' ''variable'' ''i32'' []]
                        \<lparr>diagnostics := [mkDiagnostic ''error'' 10 1 5]\<rparr>)
                     newSymbolCache))))
     = ingest pathUri ''a.mut''
         (mkResult ''a.mut'' [mkSymbol ''x'' ''variable'' ''i32'' []]
            \<lparr>diagnostics := [mkDiagnostic ''error'' 10 1 5]\<rparr>)
         newSymbolCache
   \<and> diagnosticCollection
        (snd (analyzeFile_resume pathUri ''a.mut'' None
          (snd (analyzeFile_begin ''a.mut''
                  (ingest pathUri ''a.mut''
                     (mkResult ''a.mut'' [mkSymbol ''x'' ''variable'' ''i32'' []]
                        \<lparr>diagnostics := [mkDiagnostic ''error'' 10 1 5]\<rparr>)
                     newSymbolCache))))) ''a.mut''
       = Some [\<lparr>vs_range = \<lparr>startLine = 9, startCharacter = 0, endLine = 9, endCharacter = 5\<rparr>,
                vs_message = ''undefined symbol'', vs_severity = SevError,
                vs_source = ''bismut''\<rparr>]"
proof -
  let ?s = "ingest pathUri ''a.mut''
              (mkResult ''a.mut'' [mkSymbol ''x'' ''variable'' ''i32'' []]
                 \<lparr>diagnostics := [mkDiagnostic ''error'' 10 1 5]\<rparr>)
              newSymbolCache"
  have h: "''a.mut'' \<notin> analyzing ?s"
    by (simp add: ingest_fields newSymbolCache_def)
  have same: "snd (analyzeFile_resume pathUri ''a.mut'' None (snd (analyzeFile_begin ''a.mut'' ?s))) = ?s"
    using failed_analysis_keeps_state[of pathUri "''a.mut''" ?s newWorld, THEN conjunct2, THEN conjunct2,
            THEN conjunct2, THEN conjunct2, THEN conjunct2, THEN conjunct2, THEN conjunct2,
            THEN conjunct2, THEN conjunct2, THEN mp, OF h] .
  have shown: "diagnosticCollection ?s ''a.mut''
       = Some [\<lparr>vs_range = \<lparr>startLine = 9, startCharacter = 0, endLine = 9, endCharacter = 5\<rparr>,
                vs_message = ''undefined symbol'', vs_severity = SevError,
                vs_source = ''bismut''\<rparr>]"
    by (simp add: toVsDiagnostic_def mkDiagnostic_def eval_defs)
  show ?thesis unfolding same using shown by simp
qed

section \<open>Diagnostic conversion\<close>


end
